theory Spec2Isabelle
  imports Complex_Main "HOL-Library.Log_Nat"
begin

section \<open>Python values, errors and the framework\<close>

text \<open>
  The module \<^verbatim>\<open>hw2/cnn.py\<close> builds lists of layer objects of an external framework.
  Python integers are \<open>int\<close>, dictionaries are association lists read with \<open>map_of\<close>,
  and every exception the module's code can raise is a value of \<open>error\<close>.
\<close>

datatype error =
  AssertionError | ValueError | KeyError | ZeroDivisionError | OverflowError | IndexError
  | FrameworkError

text \<open>\<^verbatim>\<open>d[k]\<close>: raises KeyError when the key is absent.\<close>

definition dict_get :: "(string \<times> 'v) list \<Rightarrow> string \<Rightarrow> error + 'v" where
  "dict_get d k = (case map_of d k of None \<Rightarrow> Inl KeyError | Some v \<Rightarrow> Inr v)"

text \<open>\<^verbatim>\<open>x if k not in d else d[k]\<close>.\<close>

definition dict_get_default :: "'v \<Rightarrow> (string \<times> 'v) list \<Rightarrow> string \<Rightarrow> 'v" where
  "dict_get_default x d k = (case map_of d k of None \<Rightarrow> x | Some v \<Rightarrow> v)"

text \<open>
  \<^verbatim>\<open>a / b\<close> on Python integers is a double: the one nearest to the exact quotient,
  a tie going to the even significand. A double is represented by a pair \<open>(m, s)\<close>
  of integers standing for \<open>m * 2^s\<close>.

  \<open>round_half_even n d\<close> is the integer nearest to \<open>n / d\<close> for \<open>0 \<le> n\<close> and \<open>0 < d\<close>,
  and \<open>binary_exponent n d\<close> is the \<open>e\<close> with \<open>2^e \<le> n / d < 2^(e + 1)\<close> for
  \<open>0 < n\<close>; \<open>bitlen\<close> is \<^verbatim>\<open>int.bit_length\<close>. A double has a significand of 53 bits,
  so the quotient is rounded to a multiple of \<open>2^(e - 52)\<close>, and of \<open>2^(-1074)\<close> in the
  subnormal range.
\<close>

definition round_half_even :: "int \<Rightarrow> int \<Rightarrow> int" where
  "round_half_even n d =
     (let q = n div d; r = n mod d
      in if 2 * r < d \<or> (2 * r = d \<and> even q) then q else q + 1)"

definition binary_exponent :: "int \<Rightarrow> int \<Rightarrow> int" where
  "binary_exponent n d =
     (let k = bitlen n - bitlen d
      in if (if 0 \<le> k then d * 2 ^ nat k \<le> n else d \<le> n * 2 ^ nat (- k)) then k else k - 1)"

type_synonym double = "int \<times> int"

definition nearest_double :: "int \<Rightarrow> int \<Rightarrow> double" where
  "nearest_double n d =
     (let s = max (binary_exponent n d - 52) (- 1074)
      in (if 0 \<le> s then round_half_even n (d * 2 ^ nat s)
          else round_half_even (n * 2 ^ nat (- s)) d, s))"

definition quotient_double :: "int \<Rightarrow> int \<Rightarrow> double" where
  "quotient_double a b =
     (case nearest_double \<bar>a\<bar> \<bar>b\<bar> of (m, s) \<Rightarrow> (sgn a * sgn b * m, s))"

text \<open>The doubles end below \<open>2^1024\<close>.\<close>

definition finite_double :: "double \<Rightarrow> bool" where
  "finite_double x =
     (case x of (m, s) \<Rightarrow> if 0 \<le> s then \<bar>m\<bar> * 2 ^ nat s < 2 ^ 1024 else True)"

text \<open>
  \<^verbatim>\<open>a / b\<close>: ZeroDivisionError when \<open>b = 0\<close>, OverflowError when the rounded quotient
  is too large for a double.
\<close>

definition truediv :: "int \<Rightarrow> int \<Rightarrow> error + double" where
  "truediv a b =
     (if b = 0 then Inl ZeroDivisionError
      else if finite_double (quotient_double a b) then Inr (quotient_double a b)
      else Inl OverflowError)"

text \<open>\<^verbatim>\<open>int(x)\<close> on a double: the fractional part is cut off, toward zero.\<close>

definition int_of_double :: "double \<Rightarrow> int" where
  "int_of_double x =
     (case x of (m, s) \<Rightarrow>
        if 0 \<le> s then m * 2 ^ nat s else sgn m * (\<bar>m\<bar> div 2 ^ nat (- s)))"

text \<open>\<^verbatim>\<open>int(a / b)\<close>.\<close>

definition int_truediv :: "int \<Rightarrow> int \<Rightarrow> error + int" where
  "int_truediv a b =
     (case truediv a b of Inl e \<Rightarrow> Inl e | Inr x \<Rightarrow> Inr (int_of_double x))"

text \<open>\<^verbatim>\<open>xs[i]\<close>: a negative index counts from the end; IndexError out of range.\<close>

definition py_index :: "'a list \<Rightarrow> int \<Rightarrow> error + 'a" where
  "py_index xs i =
     (if 0 \<le> i \<and> i < int (length xs) then Inr (xs ! nat i)
      else if i < 0 \<and> - int (length xs) \<le> i then Inr (xs ! nat (int (length xs) + i))
      else Inl IndexError)"

text \<open>
  \<^verbatim>\<open>xs[s:e]\<close> and \<^verbatim>\<open>xs[s:]\<close>: a negative bound counts from the end and every bound is
  clamped to the list.
\<close>

definition slice_bound :: "int \<Rightarrow> int \<Rightarrow> int" where
  "slice_bound n i = (if i < 0 then max (n + i) 0 else min i n)"

definition py_slice :: "'a list \<Rightarrow> int \<Rightarrow> int \<Rightarrow> 'a list" where
  "py_slice xs s e =
     (let n = int (length xs); lo = slice_bound n s; hi = slice_bound n e
      in take (nat (hi - lo)) (drop (nat lo) xs))"

definition py_slice_from :: "'a list \<Rightarrow> int \<Rightarrow> 'a list" where
  "py_slice_from xs s = drop (nat (slice_bound (int (length xs)) s)) xs"

text \<open>
  The layer primitives of the framework that the module instantiates, each with the
  hyperparameters of the constructor call. \<open>Conv2d\<close> carries in_channels, out_channels,
  kernel_size, stride, padding, dilation and bias; where a call leaves one of them out
  the framework's default is filled in (stride 1, padding 0, dilation 1, bias True).
  \<open>LeakyReLU None\<close> is the call without a negative_slope. \<open>MaxPool2d\<close> carries
  kernel_size, stride, padding, dilation; \<open>AvgPool2d\<close> kernel_size, stride, padding.
\<close>

datatype layer =
    Conv2d int int int int int int bool
  | ReLU
  | LeakyReLU "real option"
  | MaxPool2d int int int int
  | AvgPool2d int int int
  | Linear int int
  | Dropout2d real
  | BatchNorm2d int
  | Dropout real

text \<open>
  The framework is a parameter: calling a layer constructor in the ambient state \<open>g\<close>
  (the global random generator, from which the layer's weights are drawn) either raises
  inside the framework (\<open>None\<close>) or returns with the ambient state advanced. The object
  built is represented by its constructor call.
\<close>

type_synonym 'g framework = "layer \<Rightarrow> 'g \<Rightarrow> 'g option"

definition new_layer :: "'g framework \<Rightarrow> layer \<Rightarrow> 'g \<Rightarrow> error + 'g" where
  "new_layer fw l g = (case fw l g of None \<Rightarrow> Inl FrameworkError | Some g' \<Rightarrow> Inr g')"

text \<open>\<^verbatim>\<open>nn.Sequential(*layers)\<close>: the container holds the list it is given.\<close>

datatype 'm sequential = Sequential (modules: "'m list")

text \<open>
  A layer list under construction together with the ambient state; the loops below
  extend this record with their own local variables.
\<close>

record ('m, 'g) build =
  layers :: "'m list"
  ambient :: 'g

text \<open>\<^verbatim>\<open>layers.append(nn.X(...))\<close>: the constructor runs, then the list grows at its end.\<close>

definition append_new ::
  "'g framework \<Rightarrow> layer \<Rightarrow> (layer, 'g, 'z) build_scheme \<Rightarrow>
     error + (layer, 'g, 'z) build_scheme" where
  "append_new fw l st =
     (case new_layer fw l (ambient st) of
        Inl e \<Rightarrow> Inl e
      | Inr g' \<Rightarrow> Inr (st\<lparr>layers := layers st @ [l], ambient := g'\<rparr>))"

text \<open>
  The activation appended after a hidden linear layer (lines 155-161) and, by the same
  code, after a convolution inside a residual block (lines 252-258): a leaky ReLU takes
  its slope from \<open>activation_params\<close> only when that dictionary is not empty.
\<close>

definition append_activation ::
  "'g framework \<Rightarrow> string \<Rightarrow> (string \<times> real) list \<Rightarrow> (layer, 'g, 'z) build_scheme \<Rightarrow>
     error + (layer, 'g, 'z) build_scheme" where
  "append_activation fw act_type act_params st =
     (if act_type = ''relu'' then append_new fw ReLU st
      else if act_type = ''lrelu'' then
        (if act_params \<noteq> [] then
           (case dict_get act_params ''negative_slope'' of
              Inl e \<Rightarrow> Inl e
            | Inr s \<Rightarrow> append_new fw (LeakyReLU (Some s)) st)
         else append_new fw (LeakyReLU None) st)
      else Inr st)"

section \<open>ConvClassifier\<close>

definition ACTIVATIONS :: "string list" where
  "ACTIVATIONS = [''relu'', ''lrelu'']"

definition POOLINGS :: "string list" where
  "POOLINGS = [''avg'', ''max'']"

text \<open>
  The constructor arguments, stored on \<open>self\<close> under the same names. Subclasses add
  attributes of their own, so the functions below take any extension of the record.
\<close>

record classifier_args =
  in_size :: "int list"
  out_classes :: int
  channels :: "int list"
  pool_every :: int
  hidden_dims :: "int list"
  conv_params :: "(string \<times> int) list"
  activation_type :: string
  activation_params :: "(string \<times> real) list"
  pooling_type :: string
  pooling_params :: "(string \<times> int) list"

text \<open>The four values read from \<open>conv_params\<close> and from \<open>pooling_params\<close>.\<close>

record size_params =
  kernel :: int
  stride :: int
  padding :: int
  dilation :: int

text \<open>
  The size update written after each convolution and pooling,
  \<^verbatim>\<open>int(((in_h + 2*padding) - dilation*(kernel-1) - 1)/stride) + 1\<close>.
\<close>

definition out_size :: "size_params \<Rightarrow> int \<Rightarrow> error + int" where
  "out_size p sz =
     (case int_truediv ((sz + 2 * padding p) - dilation p * (kernel p - 1) - 1) (stride p) of
        Inl e \<Rightarrow> Inl e
      | Inr q \<Rightarrow> Inr (q + 1))"

text \<open>The local variables of \<^verbatim>\<open>_make_feature_extractor\<close> that the loop updates.\<close>

record ('m, 'g) fe_state = "('m, 'g) build" +
  in_h :: int
  in_w :: int
  pools_num :: int

text \<open>Both size updates after a layer: \<open>in_h\<close> first, then \<open>in_w\<close>.\<close>

definition update_sizes ::
  "size_params \<Rightarrow> ('m, 'g, 'z) fe_state_scheme \<Rightarrow> error + ('m, 'g, 'z) fe_state_scheme" where
  "update_sizes p st =
     (case out_size p (in_h st) of
        Inl e \<Rightarrow> Inl e
      | Inr h \<Rightarrow>
          (case out_size p (in_w st) of
             Inl e \<Rightarrow> Inl e
           | Inr w \<Rightarrow> Inr (st\<lparr>in_h := h, in_w := w\<rparr>)))"

text \<open>Lines 107-110: the activation after a convolution.\<close>

definition fe_activation ::
  "'g framework \<Rightarrow> 'a classifier_args_scheme \<Rightarrow> (layer, 'g) fe_state \<Rightarrow>
     error + (layer, 'g) fe_state" where
  "fe_activation fw self st =
     (if activation_type self = ''relu'' then append_new fw ReLU st
      else if activation_type self = ''lrelu'' then
        (case dict_get (activation_params self) ''negative_slope'' of
           Inl e \<Rightarrow> Inl e
         | Inr s \<Rightarrow> append_new fw (LeakyReLU (Some s)) st)
      else Inr st)"

text \<open>Lines 113-121: the pooling after every \<open>pool_every\<close>-th convolution.\<close>

definition fe_pooling ::
  "'g framework \<Rightarrow> 'a classifier_args_scheme \<Rightarrow> size_params \<Rightarrow> nat \<Rightarrow> (layer, 'g) fe_state \<Rightarrow>
     error + (layer, 'g) fe_state" where
  "fe_pooling fw self pp idx st =
     (if pool_every self = 0 then Inl ZeroDivisionError
      else if int idx mod pool_every self = 0 then
        (case (if pooling_type self = ''max'' then
                 append_new fw (MaxPool2d (kernel pp) (stride pp) (padding pp) (dilation pp)) st
               else if pooling_type self = ''avg'' then
                 append_new fw (AvgPool2d (kernel pp) (stride pp) (padding pp)) st
               else Inr st) of
           Inl e \<Rightarrow> Inl e
         | Inr st1 \<Rightarrow>
             (case update_sizes pp st1 of
                Inl e \<Rightarrow> Inl e
              | Inr st2 \<Rightarrow> Inr (st2\<lparr>pools_num := pools_num st2 + 1\<rparr>)))
      else Inr st)"

text \<open>One iteration of the loop of lines 98-121.\<close>

definition fe_body ::
  "'g framework \<Rightarrow> 'a classifier_args_scheme \<Rightarrow> int list \<Rightarrow> size_params \<Rightarrow> size_params \<Rightarrow>
     nat \<Rightarrow> (layer, 'g) fe_state \<Rightarrow> error + (layer, 'g) fe_state" where
  "fe_body fw self filters_lst cp pp idx st =
     (case py_index filters_lst (int idx - 1) of
        Inl e \<Rightarrow> Inl e
      | Inr in_channels \<Rightarrow>
     (case py_index filters_lst (int idx) of
        Inl e \<Rightarrow> Inl e
      | Inr out_channels \<Rightarrow>
     (case append_new fw
             (Conv2d in_channels out_channels
                (kernel cp) (stride cp) (padding cp) (dilation cp) True) st of
        Inl e \<Rightarrow> Inl e
      | Inr st1 \<Rightarrow>
     (case update_sizes cp st1 of
        Inl e \<Rightarrow> Inl e
      | Inr st2 \<Rightarrow>
     (case fe_activation fw self st2 of
        Inl e \<Rightarrow> Inl e
      | Inr st3 \<Rightarrow> fe_pooling fw self pp idx st3)))))"

text \<open>\<^verbatim>\<open>for idx in range(1, len(filters_lst))\<close>, stopping at the first exception.\<close>

fun fe_loop ::
  "'g framework \<Rightarrow> 'a classifier_args_scheme \<Rightarrow> int list \<Rightarrow> size_params \<Rightarrow> size_params \<Rightarrow>
     nat list \<Rightarrow> (layer, 'g) fe_state \<Rightarrow> error + (layer, 'g) fe_state" where
  "fe_loop fw self filters_lst cp pp [] st = Inr st"
| "fe_loop fw self filters_lst cp pp (idx # idxs) st =
     (case fe_body fw self filters_lst cp pp idx st of
        Inl e \<Rightarrow> Inl e
      | Inr st' \<Rightarrow> fe_loop fw self filters_lst cp pp idxs st')"

text \<open>Lines 86-89 and 91-95: the parameters read from the two dictionaries.\<close>

definition read_conv_params :: "(string \<times> int) list \<Rightarrow> error + size_params" where
  "read_conv_params d =
     (case dict_get d ''kernel_size'' of
        Inl e \<Rightarrow> Inl e
      | Inr k \<Rightarrow>
          Inr \<lparr>kernel = k,
               stride = dict_get_default 1 d ''stride'',
               padding = dict_get_default 0 d ''padding'',
               dilation = dict_get_default 1 d ''dilation''\<rparr>)"

definition read_pooling_params :: "(string \<times> int) list \<Rightarrow> error + size_params" where
  "read_pooling_params d =
     (case dict_get d ''kernel_size'' of
        Inl e \<Rightarrow> Inl e
      | Inr k \<Rightarrow>
          Inr \<lparr>kernel = k,
               stride = dict_get_default k d ''stride'',
               padding = dict_get_default 0 d ''padding'',
               dilation = dict_get_default 1 d ''dilation''\<rparr>)"

text \<open>
  What \<^verbatim>\<open>_make_feature_extractor\<close> leaves behind: the container it returns and the
  two attributes it sets on \<open>self\<close>.
\<close>

record 'm fe_result =
  fe_seq :: "'m sequential"
  fe_pools_num :: int
  fe_features_num :: int

text \<open>
  Lines 123-126, shared by the three feature extractors: \<open>features_num\<close> is set from
  \<^verbatim>\<open>self.channels[-1]\<close> and the tracked sizes, and the list is wrapped.
\<close>

definition fe_finish ::
  "'a classifier_args_scheme \<Rightarrow> ('m, 'g, 'z) fe_state_scheme \<Rightarrow> error + ('m fe_result \<times> 'g)" where
  "fe_finish self st =
     (case py_index (channels self) (- 1) of
        Inl e \<Rightarrow> Inl e
      | Inr c \<Rightarrow>
          Inr (\<lparr>fe_seq = Sequential (layers st),
                fe_pools_num = pools_num st,
                fe_features_num = c * in_h st * in_w st\<rparr>,
               ambient st))"

text \<open>
  \<^verbatim>\<open>ConvClassifier._make_feature_extractor\<close>. Unpacking \<open>in_size\<close> raises ValueError
  unless it has three entries.
\<close>

definition ConvClassifier_make_feature_extractor ::
  "'g framework \<Rightarrow> 'a classifier_args_scheme \<Rightarrow> 'g \<Rightarrow> error + (layer fe_result \<times> 'g)" where
  "ConvClassifier_make_feature_extractor fw self g =
     (case in_size self of
        [in_channels, h, w] \<Rightarrow>
          (let filters_lst = [in_channels] @ channels self in
           case read_conv_params (conv_params self) of
             Inl e \<Rightarrow> Inl e
           | Inr cp \<Rightarrow>
               (case read_pooling_params (pooling_params self) of
                  Inl e \<Rightarrow> Inl e
                | Inr pp \<Rightarrow>
                    (case fe_loop fw self filters_lst cp pp [1 ..< length filters_lst]
                            \<lparr>layers = [], ambient = g, in_h = h, in_w = w, pools_num = 0\<rparr> of
                       Inl e \<Rightarrow> Inl e
                     | Inr st \<Rightarrow> fe_finish self st)))
      | _ \<Rightarrow> Inl ValueError)"

text \<open>
  The loop of lines 153-162 over the entries of \<open>hidden_dims\<close>, with \<open>input_dimension\<close>
  as an accumulator.
\<close>

fun cls_loop ::
  "'g framework \<Rightarrow> 'a classifier_args_scheme \<Rightarrow> int list \<Rightarrow> int \<Rightarrow> (layer, 'g) build \<Rightarrow>
     error + (int \<times> (layer, 'g) build)" where
  "cls_loop fw self [] input_dimension st = Inr (input_dimension, st)"
| "cls_loop fw self (hidden # rest) input_dimension st =
     (case append_new fw (Linear input_dimension hidden) st of
        Inl e \<Rightarrow> Inl e
      | Inr st1 \<Rightarrow>
          (case append_activation fw (activation_type self) (activation_params self) st1 of
             Inl e \<Rightarrow> Inl e
           | Inr st2 \<Rightarrow> cls_loop fw self rest hidden st2))"

text \<open>
  \<^verbatim>\<open>_make_classifier\<close>; \<open>n_features\<close> is what \<^verbatim>\<open>self._n_features()\<close> returned,
  the \<open>features_num\<close> that the feature extractor has just set.
\<close>

definition make_classifier ::
  "'g framework \<Rightarrow> 'a classifier_args_scheme \<Rightarrow> int \<Rightarrow> 'g \<Rightarrow>
     error + (layer sequential \<times> 'g)" where
  "make_classifier fw self n_features g =
     (case cls_loop fw self (hidden_dims self) n_features \<lparr>layers = [], ambient = g\<rparr> of
        Inl e \<Rightarrow> Inl e
      | Inr (input_dimension, st) \<Rightarrow>
          (case append_new fw (Linear input_dimension (out_classes self)) st of
             Inl e \<Rightarrow> Inl e
           | Inr st1 \<Rightarrow> Inr (Sequential (layers st1), ambient st1)))"

text \<open>The object after \<^verbatim>\<open>__init__\<close>: the stored arguments and the attributes set.\<close>

record ('a, 'm) conv_classifier =
  args :: "'a classifier_args_scheme"
  self_pools_num :: int
  features_num :: int
  feature_extractor :: "'m sequential"
  classifier :: "layer sequential"

text \<open>
  \<^verbatim>\<open>_n_features\<close>: saves the random generator's state, returns \<open>self.features_num\<close>,
  and restores the state in the \<^verbatim>\<open>finally\<close> clause.
\<close>

definition n_features :: "('a, 'm, 'z) conv_classifier_scheme \<Rightarrow> 'g \<Rightarrow> int \<times> 'g" where
  "n_features self g = (let rng_state = g in (features_num self, rng_state))"

text \<open>
  \<^verbatim>\<open>ConvClassifier.__init__\<close>, with the feature-extractor method of the class of the
  object as a parameter (subclasses override it).
\<close>

definition ConvClassifier_init_with ::
  "('g framework \<Rightarrow> 'a classifier_args_scheme \<Rightarrow> 'g \<Rightarrow> error + ('m fe_result \<times> 'g)) \<Rightarrow>
   'g framework \<Rightarrow> 'a classifier_args_scheme \<Rightarrow> 'g \<Rightarrow>
     error + (('a, 'm) conv_classifier \<times> 'g)" where
  "ConvClassifier_init_with make_fe fw a g =
     (if channels a = [] \<or> hidden_dims a = [] then Inl AssertionError
      else if activation_type a \<notin> set ACTIVATIONS \<or> pooling_type a \<notin> set POOLINGS
      then Inl ValueError
      else
        (case make_fe fw a g of
           Inl e \<Rightarrow> Inl e
         | Inr (fe, g1) \<Rightarrow>
             (case make_classifier fw a (fe_features_num fe) g1 of
                Inl e \<Rightarrow> Inl e
              | Inr (cl, g2) \<Rightarrow>
                  Inr (\<lparr>args = a, self_pools_num = fe_pools_num fe,
                        features_num = fe_features_num fe,
                        feature_extractor = fe_seq fe, classifier = cl\<rparr>, g2))))"

definition ConvClassifier_init ::
  "'g framework \<Rightarrow> classifier_args \<Rightarrow> 'g \<Rightarrow>
     error + ((unit, layer) conv_classifier \<times> 'g)" where
  "ConvClassifier_init = ConvClassifier_init_with ConvClassifier_make_feature_extractor"

section \<open>ResidualBlock\<close>

text \<open>
  The arguments of \<^verbatim>\<open>ResidualBlock.__init__\<close>; \<open>batchnorm\<close> is the truth value of the
  argument, which the code only tests.
\<close>

record block_args =
  rb_in_channels :: int
  rb_channels :: "int list"
  rb_kernel_sizes :: "int list"
  rb_batchnorm :: bool
  rb_dropout :: real
  rb_activation_type :: string
  rb_activation_params :: "(string \<times> real) list"

record residual_block =
  main_path :: "layer sequential"
  shortcut_path :: "layer sequential"

text \<open>The list \<open>main\<close> (the field \<open>layers\<close>) and \<open>tmp_in_channels\<close>.\<close>

record 'g rb_state = "(layer, 'g) build" +
  tmp_in_channels :: int

text \<open>
  \<^verbatim>\<open>for i, ch in enumerate(channels)\<close>, lines 239-258. The convolution is called with
  \<^verbatim>\<open>bias=True\<close> and \<^verbatim>\<open>padding=int(kernel_sizes[i]/2)\<close>; stride and dilation are
  the framework's defaults. \<^verbatim>\<open>break\<close> leaves the loop after the last convolution.
\<close>

fun rb_loop ::
  "'g framework \<Rightarrow> block_args \<Rightarrow> (nat \<times> int) list \<Rightarrow> 'g rb_state \<Rightarrow> error + 'g rb_state" where
  "rb_loop fw b [] st = Inr st"
| "rb_loop fw b ((i, ch) # rest) st =
     (case py_index (rb_kernel_sizes b) (int i) of
        Inl e \<Rightarrow> Inl e
      | Inr k \<Rightarrow>
     (case int_truediv k 2 of
        Inl e \<Rightarrow> Inl e
      | Inr pad \<Rightarrow>
     (case append_new fw (Conv2d (tmp_in_channels st) ch k 1 pad 1 True) st of
        Inl e \<Rightarrow> Inl e
      | Inr st1 \<Rightarrow>
          (let st2 = st1\<lparr>tmp_in_channels := ch\<rparr> in
           if int i = int (length (rb_channels b)) - 1 then Inr st2
           else
             (case append_new fw (Dropout2d (rb_dropout b)) st2 of
                Inl e \<Rightarrow> Inl e
              | Inr st3 \<Rightarrow>
             (case (if rb_batchnorm b then append_new fw (BatchNorm2d ch) st3 else Inr st3) of
                Inl e \<Rightarrow> Inl e
              | Inr st4 \<Rightarrow>
             (case append_activation fw (rb_activation_type b) (rb_activation_params b) st4 of
                Inl e \<Rightarrow> Inl e
              | Inr st5 \<Rightarrow> rb_loop fw b rest st5)))))))"

text \<open>\<^verbatim>\<open>ResidualBlock.__init__\<close>: the three assertions, the check of the activation type,
  the main path and the shortcut path.\<close>

definition ResidualBlock_init ::
  "'g framework \<Rightarrow> block_args \<Rightarrow> 'g \<Rightarrow> error + (residual_block \<times> 'g)" where
  "ResidualBlock_init fw b g =
     (if rb_channels b = [] \<or> rb_kernel_sizes b = [] then Inl AssertionError
      else if length (rb_channels b) \<noteq> length (rb_kernel_sizes b) then Inl AssertionError
      else if \<not> list_all (\<lambda>x. x mod 2 = 1) (rb_kernel_sizes b) then Inl AssertionError
      else if rb_activation_type b \<notin> set ACTIVATIONS then Inl ValueError
      else
        (case rb_loop fw b (enumerate 0 (rb_channels b))
                \<lparr>layers = [], ambient = g, tmp_in_channels = rb_in_channels b\<rparr> of
           Inl e \<Rightarrow> Inl e
         | Inr st \<Rightarrow>
             (if tmp_in_channels st \<noteq> rb_in_channels b then
                (case new_layer fw
                        (Conv2d (rb_in_channels b) (tmp_in_channels st) 1 1 0 1 False)
                        (ambient st) of
                   Inl e \<Rightarrow> Inl e
                 | Inr g' \<Rightarrow>
                     Inr (\<lparr>main_path = Sequential (layers st),
                           shortcut_path =
                             Sequential
                               [Conv2d (rb_in_channels b) (tmp_in_channels st) 1 1 0 1 False]\<rparr>,
                          g'))
              else
                Inr (\<lparr>main_path = Sequential (layers st), shortcut_path = Sequential []\<rparr>,
                     ambient st))))"

section \<open>ResidualBottleneckBlock\<close>

text \<open>The keyword arguments that \<^verbatim>\<open>ResidualBottleneckBlock.__init__\<close> looks up.\<close>

record block_kwargs =
  kw_batchnorm :: "bool option"
  kw_dropout :: "real option"
  kw_activation_type :: "string option"
  kw_activation_params :: "(string \<times> real) list option"

text \<open>The arguments that \<^verbatim>\<open>ResidualBottleneckBlock.__init__\<close> passes on (lines 301-306);
  \<^verbatim>\<open>inner_channels[0]\<close> raises IndexError on an empty list.\<close>

definition bottleneck_args ::
  "int \<Rightarrow> int list \<Rightarrow> int list \<Rightarrow> block_kwargs \<Rightarrow> error + block_args" where
  "bottleneck_args in_out_channels inner_channels inner_kernel_sizes kwargs =
     (case py_index inner_channels 0 of
        Inl e \<Rightarrow> Inl e
      | Inr c0 \<Rightarrow>
          Inr \<lparr>rb_in_channels = in_out_channels,
               rb_channels = [c0] @ inner_channels @ [in_out_channels],
               rb_kernel_sizes = [1] @ inner_kernel_sizes @ [1],
               rb_batchnorm = (case kw_batchnorm kwargs of None \<Rightarrow> False | Some v \<Rightarrow> v),
               rb_dropout = (case kw_dropout kwargs of None \<Rightarrow> 0 | Some v \<Rightarrow> v),
               rb_activation_type =
                 (case kw_activation_type kwargs of None \<Rightarrow> ''relu'' | Some v \<Rightarrow> v),
               rb_activation_params =
                 (case kw_activation_params kwargs of None \<Rightarrow> [] | Some v \<Rightarrow> v)\<rparr>)"

definition ResidualBottleneckBlock_init ::
  "'g framework \<Rightarrow> int \<Rightarrow> int list \<Rightarrow> int list \<Rightarrow> block_kwargs \<Rightarrow> 'g \<Rightarrow>
     error + (residual_block \<times> 'g)" where
  "ResidualBottleneckBlock_init fw in_out_channels inner_channels inner_kernel_sizes kwargs g =
     (case bottleneck_args in_out_channels inner_channels inner_kernel_sizes kwargs of
        Inl e \<Rightarrow> Inl e
      | Inr b \<Rightarrow> ResidualBlock_init fw b g)"

section \<open>ResNetClassifier\<close>

text \<open>The elements of the feature extractors of the two subclasses: framework layers and
  residual blocks.\<close>

datatype module = Layer layer | Block residual_block

record resnet_args = classifier_args +
  batchnorm :: bool
  dropout :: real

record ('m, 'g) resnet_state = "('m, 'g) fe_state" +
  curr_channels :: int

text \<open>\<^verbatim>\<open>layers.append(ResidualBlock(...))\<close> with the activation arguments left at
  their defaults.\<close>

definition append_block ::
  "'g framework \<Rightarrow> int \<Rightarrow> int list \<Rightarrow> int list \<Rightarrow> bool \<Rightarrow> real \<Rightarrow>
     (module, 'g, 'z) build_scheme \<Rightarrow> error + (module, 'g, 'z) build_scheme" where
  "append_block fw in_ch chans kernel_sizes bn dr st =
     (case ResidualBlock_init fw
             \<lparr>rb_in_channels = in_ch, rb_channels = chans, rb_kernel_sizes = kernel_sizes,
              rb_batchnorm = bn, rb_dropout = dr,
              rb_activation_type = ''relu'', rb_activation_params = []\<rparr> (ambient st) of
        Inl e \<Rightarrow> Inl e
      | Inr (blk, g') \<Rightarrow> Inr (st\<lparr>layers := layers st @ [Block blk], ambient := g'\<rparr>))"

text \<open>Appending a framework layer to a list of modules.\<close>

definition append_module ::
  "'g framework \<Rightarrow> layer \<Rightarrow> (module, 'g, 'z) build_scheme \<Rightarrow>
     error + (module, 'g, 'z) build_scheme" where
  "append_module fw l st =
     (case new_layer fw l (ambient st) of
        Inl e \<Rightarrow> Inl e
      | Inr g' \<Rightarrow> Inr (st\<lparr>layers := layers st @ [Layer l], ambient := g'\<rparr>))"

text \<open>One iteration of the loop of lines 368-387.\<close>

definition resnet_body ::
  "'g framework \<Rightarrow> resnet_args \<Rightarrow> size_params \<Rightarrow> nat \<Rightarrow> (module, 'g) resnet_state \<Rightarrow>
     error + (module, 'g) resnet_state" where
  "resnet_body fw self pp index st =
     (let start_index = pool_every self * int index;
          end_index = pool_every self * (int index + 1) in
      case append_block fw (curr_channels st)
             (py_slice (channels self) start_index end_index)
             (replicate (nat (pool_every self)) 3) (batchnorm self) (dropout self) st of
        Inl e \<Rightarrow> Inl e
      | Inr st1 \<Rightarrow>
     (case (if pooling_type self = ''max'' then
              append_module fw (MaxPool2d (kernel pp) (stride pp) (padding pp) (dilation pp)) st1
            else if pooling_type self = ''avg'' then
              append_module fw (AvgPool2d (kernel pp) (stride pp) (padding pp)) st1
            else Inr st1) of
        Inl e \<Rightarrow> Inl e
      | Inr st2 \<Rightarrow>
     (case update_sizes pp st2 of
        Inl e \<Rightarrow> Inl e
      | Inr st3 \<Rightarrow>
     (case py_index (channels self) (end_index - 1) of
        Inl e \<Rightarrow> Inl e
      | Inr c \<Rightarrow> Inr (st3\<lparr>pools_num := pools_num st3 + 1, curr_channels := c\<rparr>)))))"

fun resnet_loop ::
  "'g framework \<Rightarrow> resnet_args \<Rightarrow> size_params \<Rightarrow> nat list \<Rightarrow> (module, 'g) resnet_state \<Rightarrow>
     error + (module, 'g) resnet_state" where
  "resnet_loop fw self pp [] st = Inr st"
| "resnet_loop fw self pp (index # rest) st =
     (case resnet_body fw self pp index st of
        Inl e \<Rightarrow> Inl e
      | Inr st' \<Rightarrow> resnet_loop fw self pp rest st')"

text \<open>
  \<^verbatim>\<open>ResNetClassifier._make_feature_extractor\<close>. \<^verbatim>\<open>%\<close> and \<^verbatim>\<open>int(... / ...)\<close> raise
  ZeroDivisionError when \<open>pool_every\<close> is 0; \<^verbatim>\<open>range(n)\<close> is empty for \<open>n \<le> 0\<close>.
\<close>

definition ResNetClassifier_make_feature_extractor ::
  "'g framework \<Rightarrow> resnet_args \<Rightarrow> 'g \<Rightarrow> error + (module fe_result \<times> 'g)" where
  "ResNetClassifier_make_feature_extractor fw self g =
     (case in_size self of
        [in_channels, h, w] \<Rightarrow>
          (case read_pooling_params (pooling_params self) of
             Inl e \<Rightarrow> Inl e
           | Inr pp \<Rightarrow>
               (let channels_length = int (length (channels self)) in
                if pool_every self = 0 then Inl ZeroDivisionError
                else
                  (let remainder = channels_length mod pool_every self in
                   case int_truediv channels_length (pool_every self) of
                     Inl e \<Rightarrow> Inl e
                   | Inr n \<Rightarrow>
                  (case resnet_loop fw self pp [0 ..< nat n]
                          \<lparr>layers = [], ambient = g, in_h = h, in_w = w, pools_num = 0,
                           curr_channels = in_channels\<rparr> of
                     Inl e \<Rightarrow> Inl e
                   | Inr st \<Rightarrow>
                  (case (if remainder \<noteq> 0 then
                           append_block fw (curr_channels st)
                             (py_slice_from (channels self) (channels_length - remainder))
                             (replicate (nat remainder) 3) (batchnorm self) (dropout self) st
                         else Inr st) of
                     Inl e \<Rightarrow> Inl e
                   | Inr st' \<Rightarrow> fe_finish self st')))))
      | _ \<Rightarrow> Inl ValueError)"

text \<open>\<^verbatim>\<open>ResNetClassifier.__init__\<close> stores \<open>batchnorm\<close> and \<open>dropout\<close> and runs the
  constructor of the base class.\<close>

definition ResNetClassifier_init ::
  "'g framework \<Rightarrow> resnet_args \<Rightarrow> 'g \<Rightarrow>
     error + ((\<lparr>batchnorm :: bool, dropout :: real\<rparr>, module) conv_classifier \<times> 'g)" where
  "ResNetClassifier_init = ConvClassifier_init_with ResNetClassifier_make_feature_extractor"

section \<open>YourCodeNet\<close>

text \<open>One iteration of the loop of lines 436-454; the pooling constants are those of
  lines 425-428, and \<^verbatim>\<open>batchnorm="true"\<close> is a true value.\<close>

definition yc_pool :: size_params where
  "yc_pool = \<lparr>kernel = 2, stride = 2, padding = 0, dilation = 1\<rparr>"

definition yc_body ::
  "'g framework \<Rightarrow> classifier_args \<Rightarrow> int \<Rightarrow> nat \<Rightarrow> (module, 'g) resnet_state \<Rightarrow>
     error + (module, 'g) resnet_state" where
  "yc_body fw self last_index index st =
     (let start_index = pool_every self * int index;
          end_index = pool_every self * (int index + 1) in
      case append_block fw (curr_channels st)
             (py_slice (channels self) start_index end_index)
             (replicate (nat (pool_every self)) 3) True 0 st of
        Inl e \<Rightarrow> Inl e
      | Inr st1 \<Rightarrow>
     (case (if int index = last_index - 1 then
              (case append_module fw
                      (MaxPool2d (kernel yc_pool) (stride yc_pool) (padding yc_pool)
                         (dilation yc_pool)) st1 of
                 Inl e \<Rightarrow> Inl e
               | Inr st2 \<Rightarrow>
              (case append_module fw (Dropout2d (1 / 10)) st2 of
                 Inl e \<Rightarrow> Inl e
               | Inr st3 \<Rightarrow> update_sizes yc_pool (st3\<lparr>pools_num := pools_num st3 + 1\<rparr>)))
            else Inr st1) of
        Inl e \<Rightarrow> Inl e
      | Inr st4 \<Rightarrow>
     (case py_index (channels self) (end_index - 1) of
        Inl e \<Rightarrow> Inl e
      | Inr c \<Rightarrow> Inr (st4\<lparr>curr_channels := c\<rparr>))))"

fun yc_loop ::
  "'g framework \<Rightarrow> classifier_args \<Rightarrow> int \<Rightarrow> nat list \<Rightarrow> (module, 'g) resnet_state \<Rightarrow>
     error + (module, 'g) resnet_state" where
  "yc_loop fw self last_index [] st = Inr st"
| "yc_loop fw self last_index (index # rest) st =
     (case yc_body fw self last_index index st of
        Inl e \<Rightarrow> Inl e
      | Inr st' \<Rightarrow> yc_loop fw self last_index rest st')"

text \<open>\<^verbatim>\<open>YourCodeNet._make_feature_extractor\<close>.\<close>

definition YourCodeNet_make_feature_extractor ::
  "'g framework \<Rightarrow> classifier_args \<Rightarrow> 'g \<Rightarrow> error + (module fe_result \<times> 'g)" where
  "YourCodeNet_make_feature_extractor fw self g =
     (case in_size self of
        [in_channels, h, w] \<Rightarrow>
          (let channels_length = int (length (channels self)) in
           if pool_every self = 0 then Inl ZeroDivisionError
           else
             (let remainder = channels_length mod pool_every self in
              case int_truediv channels_length (pool_every self) of
                Inl e \<Rightarrow> Inl e
              | Inr last_index \<Rightarrow>
             (case yc_loop fw self last_index [0 ..< nat last_index]
                     \<lparr>layers = [], ambient = g, in_h = h, in_w = w, pools_num = 0,
                      curr_channels = in_channels\<rparr> of
                Inl e \<Rightarrow> Inl e
              | Inr st \<Rightarrow>
             (case (if remainder \<noteq> 0 then
                      append_block fw (curr_channels st)
                        (py_slice_from (channels self) (channels_length - remainder))
                        (replicate (nat remainder) 3) True 0 st
                    else Inr st) of
                Inl e \<Rightarrow> Inl e
              | Inr st' \<Rightarrow> fe_finish self st'))))
      | _ \<Rightarrow> Inl ValueError)"

text \<open>The object after \<^verbatim>\<open>YourCodeNet.__init__\<close> has one more attribute.\<close>

record ('a, 'm) your_code_net = "('a, 'm) conv_classifier" +
  yc_dropout :: layer

text \<open>
  \<^verbatim>\<open>YourCodeNet.__init__\<close>: the constructor of the base class, then the feature
  extractor and the classifier are built a second time and replace the first ones, then
  \<^verbatim>\<open>nn.Dropout(0.1)\<close>.
\<close>

definition YourCodeNet_init ::
  "'g framework \<Rightarrow> classifier_args \<Rightarrow> 'g \<Rightarrow>
     error + ((unit, module) your_code_net \<times> 'g)" where
  "YourCodeNet_init fw a g =
     (case ConvClassifier_init_with YourCodeNet_make_feature_extractor fw a g of
        Inl e \<Rightarrow> Inl e
      | Inr (self, g1) \<Rightarrow>
     (case YourCodeNet_make_feature_extractor fw a g1 of
        Inl e \<Rightarrow> Inl e
      | Inr (fe, g2) \<Rightarrow>
     (case make_classifier fw a (fe_features_num fe) g2 of
        Inl e \<Rightarrow> Inl e
      | Inr (cl, g3) \<Rightarrow>
     (case new_layer fw (Dropout (1 / 10)) g3 of
        Inl e \<Rightarrow> Inl e
      | Inr g4 \<Rightarrow>
          Inr (\<lparr>args = a, self_pools_num = fe_pools_num fe,
                features_num = fe_features_num fe,
                feature_extractor = fe_seq fe, classifier = cl,
                yc_dropout = Dropout (1 / 10)\<rparr>, g4)))))"

section \<open>Definitions for the statements\<close>

text \<open>The value of \<^verbatim>\<open>int(a / b)\<close> when the division returns.\<close>

definition quotient_int :: "int \<Rightarrow> int \<Rightarrow> int" where
  "quotient_int a b = int_of_double (quotient_double a b)"

text \<open>The exact quotient of two integers, rounded toward zero.\<close>

definition trunc_quot :: "int \<Rightarrow> int \<Rightarrow> int" where
  "trunc_quot a b = sgn a * sgn b * (\<bar>a\<bar> div \<bar>b\<bar>)"

text \<open>
  The numerator of the size update, when the update returns (the stride is not 0 and the
  quotient is a double), and the size that it leaves.
\<close>

definition size_numerator :: "size_params \<Rightarrow> int \<Rightarrow> int" where
  "size_numerator p sz = (sz + 2 * padding p) - dilation p * (kernel p - 1) - 1"

definition size_defined :: "size_params \<Rightarrow> int \<Rightarrow> bool" where
  "size_defined p sz \<longleftrightarrow>
     stride p \<noteq> 0 \<and> finite_double (quotient_double (size_numerator p sz) (stride p))"

definition size_update :: "size_params \<Rightarrow> int \<Rightarrow> int" where
  "size_update p sz = quotient_int (size_numerator p sz) (stride p) + 1"

fun spatial_after :: "(int \<Rightarrow> int) \<Rightarrow> (int \<Rightarrow> int) \<Rightarrow> int \<Rightarrow> nat \<Rightarrow> int \<Rightarrow> int" where
  "spatial_after conv_update pool_update P 0 sz = sz"
| "spatial_after conv_update pool_update P (Suc n) sz =
     (let s = conv_update (spatial_after conv_update pool_update P n sz)
      in if int (Suc n) mod P = 0 then pool_update s else s)"

definition fe_activation_layers :: "'a classifier_args_scheme \<Rightarrow> layer list" where
  "fe_activation_layers self =
     (if activation_type self = ''relu'' then [ReLU]
      else if activation_type self = ''lrelu'' then
        (case map_of (activation_params self) ''negative_slope'' of
           None \<Rightarrow> [] | Some s \<Rightarrow> [LeakyReLU (Some s)])
      else [])"

definition pooling_layers :: "'a classifier_args_scheme \<Rightarrow> size_params \<Rightarrow> layer list" where
  "pooling_layers self pp =
     (if pooling_type self = ''max'' then
        [MaxPool2d (kernel pp) (stride pp) (padding pp) (dilation pp)]
      else if pooling_type self = ''avg'' then [AvgPool2d (kernel pp) (stride pp) (padding pp)]
      else [])"

definition fe_group ::
  "'a classifier_args_scheme \<Rightarrow> int list \<Rightarrow> size_params \<Rightarrow> size_params \<Rightarrow> nat \<Rightarrow> layer list" where
  "fe_group self filters_lst cp pp idx =
     [Conv2d (filters_lst ! (idx - 1)) (filters_lst ! idx)
        (kernel cp) (stride cp) (padding cp) (dilation cp) True]
     @ fe_activation_layers self
     @ (if int idx mod pool_every self = 0 then pooling_layers self pp else [])"

definition size_step :: "size_params \<Rightarrow> size_params \<Rightarrow> int \<Rightarrow> nat \<Rightarrow> int \<Rightarrow> int" where
  "size_step cp pp P idx sz =
     (if int idx mod P = 0 then size_update pp (size_update cp sz) else size_update cp sz)"

text \<open>A framework that accepts every constructor call, and a small configuration.\<close>

definition accept_all :: "unit framework" where
  "accept_all l g = Some g"

definition example_args :: classifier_args where
  "example_args =
     \<lparr>in_size = [3, 32, 32], out_classes = 10, channels = [8, 16, 32], pool_every = 2,
      hidden_dims = [100], conv_params = [(''kernel_size'', 3)], activation_type = ''relu'',
      activation_params = [], pooling_type = ''max'',
      pooling_params = [(''kernel_size'', 2)]\<rparr>"

definition example_classifier :: "(unit, layer) conv_classifier" where
  "example_classifier =
     \<lparr>args = example_args, self_pools_num = 1, features_num = 4608,
      feature_extractor =
        Sequential
          [Conv2d 3 8 3 1 0 1 True, ReLU, Conv2d 8 16 3 1 0 1 True, ReLU,
           MaxPool2d 2 2 0 1, Conv2d 16 32 3 1 0 1 True, ReLU],
      classifier = Sequential [Linear 4608 100, ReLU, Linear 100 10]\<rparr>"



text \<open>Two convolutions, with a negative \<open>pool_every\<close>.\<close>

definition negative_pool_args :: classifier_args where
  "negative_pool_args =
     \<lparr>in_size = [3, 32, 32], out_classes = 10, channels = [8, 16], pool_every = - 1,
      hidden_dims = [100], conv_params = [(''kernel_size'', 3)], activation_type = ''relu'',
      activation_params = [], pooling_type = ''max'',
      pooling_params = [(''kernel_size'', 2)]\<rparr>"

definition negative_pool_classifier :: "(unit, layer) conv_classifier" where
  "negative_pool_classifier =
     \<lparr>args = negative_pool_args, self_pools_num = 2, features_num = 576,
      feature_extractor =
        Sequential
          [Conv2d 3 8 3 1 0 1 True, ReLU, MaxPool2d 2 2 0 1,
           Conv2d 8 16 3 1 0 1 True, ReLU, MaxPool2d 2 2 0 1],
      classifier = Sequential [Linear 576 100, ReLU, Linear 100 10]\<rparr>"

fun is_conv :: "layer \<Rightarrow> bool" where
  "is_conv (Conv2d i out k s p d b) = True"
| "is_conv l = False"

fun is_activation :: "layer \<Rightarrow> bool" where
  "is_activation ReLU = True"
| "is_activation (LeakyReLU s) = True"
| "is_activation l = False"

fun is_pooling :: "layer \<Rightarrow> bool" where
  "is_pooling (MaxPool2d k s p d) = True"
| "is_pooling (AvgPool2d k s p) = True"
| "is_pooling l = False"

definition conv_act_pool_group ::
  "int list \<Rightarrow> size_params \<Rightarrow> layer \<Rightarrow> layer \<Rightarrow> int \<Rightarrow> nat \<Rightarrow> layer list" where
  "conv_act_pool_group filters cp A PL P i =
     [Conv2d (filters ! (i - 1)) (filters ! i) (kernel cp) (stride cp) (padding cp) (dilation cp)
        True, A]
     @ (if int i mod P = 0 then [PL] else [])"

definition conv_act_pool_sequence ::
  "int list \<Rightarrow> size_params \<Rightarrow> layer \<Rightarrow> layer \<Rightarrow> int \<Rightarrow> nat \<Rightarrow> layer list" where
  "conv_act_pool_sequence filters cp A PL P N =
     concat (map (conv_act_pool_group filters cp A PL P) [1 ..< Suc N])"

text \<open>The output-size formula with the quotient rounded down.\<close>

definition floor_out_size :: "size_params \<Rightarrow> int \<Rightarrow> int" where
  "floor_out_size p sz =
     ((sz + 2 * padding p) - dilation p * (kernel p - 1) - 1) div stride p + 1"

text \<open>An input of one pixel under a 3x3 convolution of stride 3.\<close>

definition small_input_args :: classifier_args where
  "small_input_args =
     \<lparr>in_size = [3, 1, 1], out_classes = 10, channels = [8], pool_every = 2,
      hidden_dims = [10], conv_params = [(''kernel_size'', 3), (''stride'', 3)],
      activation_type = ''relu'', activation_params = [], pooling_type = ''max'',
      pooling_params = [(''kernel_size'', 2)]\<rparr>"

text \<open>
  A bound on how far one size update can move a size away from zero:
  \<open>|int(x / stride) + 1| \<le> |x| + 1\<close> and \<open>|x| \<le> |size| + 2*|padding| + |dilation*(kernel - 1)| + 1\<close>.
\<close>

definition shrink_bound :: "size_params \<Rightarrow> int" where
  "shrink_bound p = 2 * \<bar>padding p\<bar> + \<bar>dilation p * (kernel p - 1)\<bar> + 2"

fun is_linear :: "layer \<Rightarrow> bool" where
  "is_linear (Linear i out) = True"
| "is_linear l = False"

text \<open>\<open>(FC -> ACT)*M -> FC\<close>: linear layers chained through the hidden dimensions, the
  activation \<open>A\<close> after each but the last.\<close>

fun fc_act_sequence :: "int \<Rightarrow> int list \<Rightarrow> layer \<Rightarrow> int \<Rightarrow> layer list" where
  "fc_act_sequence n [] A out = [Linear n out]"
| "fc_act_sequence n (h # hs) A out = Linear n h # A # fc_act_sequence h hs A out"

text \<open>The layers that \<open>append_activation\<close> appends when it returns.\<close>

definition activation_layers :: "string \<Rightarrow> (string \<times> real) list \<Rightarrow> layer list" where
  "activation_layers act_type act_params =
     (if act_type = ''relu'' then [ReLU]
      else if act_type = ''lrelu'' then
        (if act_params \<noteq> [] then
           (case map_of act_params ''negative_slope'' of
              None \<Rightarrow> [] | Some s \<Rightarrow> [LeakyReLU (Some s)])
         else [LeakyReLU None])
      else [])"

text \<open>
  The main path of a residual block over the pairs (channels, kernel size): each
  convolution but the last is followed by dropout, batch normalisation when asked for, and
  the activation layers \<open>act\<close>.
\<close>

fun rb_main_layers :: "block_args \<Rightarrow> layer list \<Rightarrow> int \<Rightarrow> (int \<times> int) list \<Rightarrow> layer list" where
  "rb_main_layers b act prev [] = []"
| "rb_main_layers b act prev ((ch, k) # rest) =
     Conv2d prev ch k 1 (quotient_int k 2) 1 True
     # (if rest = [] then []
        else Dropout2d (rb_dropout b) # (if rb_batchnorm b then [BatchNorm2d ch] else [])
             @ act @ rb_main_layers b act ch rest)"

text \<open>
  Modelled from the spec: the shape (channels, height, width) that a layer of the framework
  gives to an input of a given shape; the framework's forward pass is not in src/. A
  convolution needs its \<open>in_channels\<close>, outputs \<open>out_channels\<close> and maps each spatial
  size by \<open>floor((size + 2*padding - dilation*(kernel - 1) - 1) / stride) + 1\<close>; pooling
  keeps the channels and applies the same formula (an average pooling has no dilation);
  batch normalisation needs its number of channels and keeps the shape, as activations
  and dropout do. A linear layer takes no such input.
\<close>

fun layer_shape :: "layer \<Rightarrow> int \<times> int \<times> int \<Rightarrow> (int \<times> int \<times> int) option" where
  "layer_shape (Conv2d i out k s p d bias) (c, h, w) =
     (if c = i \<and> s \<noteq> 0 then
        Some (out, (h + 2 * p - d * (k - 1) - 1) div s + 1, (w + 2 * p - d * (k - 1) - 1) div s + 1)
      else None)"
| "layer_shape (MaxPool2d k s p d) (c, h, w) =
     (if s \<noteq> 0 then
        Some (c, (h + 2 * p - d * (k - 1) - 1) div s + 1, (w + 2 * p - d * (k - 1) - 1) div s + 1)
      else None)"
| "layer_shape (AvgPool2d k s p) (c, h, w) =
     (if s \<noteq> 0 then
        Some (c, (h + 2 * p - (k - 1) - 1) div s + 1, (w + 2 * p - (k - 1) - 1) div s + 1)
      else None)"
| "layer_shape (BatchNorm2d n) (c, h, w) = (if c = n then Some (c, h, w) else None)"
| "layer_shape (Linear i out) (c, h, w) = None"
| "layer_shape ReLU (c, h, w) = Some (c, h, w)"
| "layer_shape (LeakyReLU s) (c, h, w) = Some (c, h, w)"
| "layer_shape (Dropout2d p) (c, h, w) = Some (c, h, w)"
| "layer_shape (Dropout p) (c, h, w) = Some (c, h, w)"

text \<open>A sequential container applies its layers in order.\<close>

fun path_shape :: "layer list \<Rightarrow> int \<times> int \<times> int \<Rightarrow> (int \<times> int \<times> int) option" where
  "path_shape [] x = Some x"
| "path_shape (l # ls) x = (case layer_shape l x of None \<Rightarrow> None | Some y \<Rightarrow> path_shape ls y)"

text \<open>
  A framework that cannot build a convolution whose kernel size is negative, or so large
  (\<open>2^53\<close> and more) that its weights could not be held.
\<close>

definition rejects_unbuildable_kernels :: "'g framework \<Rightarrow> bool" where
  "rejects_unbuildable_kernels fw \<longleftrightarrow>
     (\<forall>g i out k s p d bias.
        k < 0 \<or> 2 ^ 53 \<le> k \<longrightarrow> fw (Conv2d i out k s p d bias) g = None)"

definition accept_sized :: "unit framework" where
  "accept_sized l g =
     (case l of
        Conv2d i out k s p d bias \<Rightarrow> if k < 0 \<or> 2 ^ 53 \<le> k then None else Some g
      | _ \<Rightarrow> Some g)"

definition example_block_args :: block_args where
  "example_block_args =
     \<lparr>rb_in_channels = 3, rb_channels = [8, 16], rb_kernel_sizes = [3, 5],
      rb_batchnorm = True, rb_dropout = 0, rb_activation_type = ''relu'',
      rb_activation_params = []\<rparr>"

definition example_block :: residual_block where
  "example_block =
     \<lparr>main_path =
        Sequential [Conv2d 3 8 3 1 1 1 True, Dropout2d 0, BatchNorm2d 8, ReLU,
                    Conv2d 8 16 5 1 2 1 True],
      shortcut_path = Sequential [Conv2d 3 16 1 1 0 1 False]\<rparr>"

definition example_kwargs :: block_kwargs where
  "example_kwargs =
     \<lparr>kw_batchnorm = Some True, kw_dropout = None, kw_activation_type = None,
      kw_activation_params = None\<rparr>"

definition example_bottleneck :: residual_block where
  "example_bottleneck =
     \<lparr>main_path =
        Sequential
          [Conv2d 256 64 1 1 0 1 True, Dropout2d 0, BatchNorm2d 64, ReLU,
           Conv2d 64 64 3 1 1 1 True, Dropout2d 0, BatchNorm2d 64, ReLU,
           Conv2d 64 32 5 1 2 1 True, Dropout2d 0, BatchNorm2d 32, ReLU,
           Conv2d 32 256 1 1 0 1 True],
      shortcut_path = Sequential []\<rparr>"

text \<open>Two states of a construction that differ at most in the ambient state.\<close>

definition same_but_ambient ::
  "('m, 'g, 'z) build_scheme \<Rightarrow> ('m, 'g, 'z) build_scheme \<Rightarrow> bool" where
  "same_but_ambient st1 st2 \<longleftrightarrow> st1\<lparr>ambient := ambient st2\<rparr> = st2"

text \<open>A framework whose ambient state advances with every constructor call.\<close>

definition counting :: "nat framework" where
  "counting l g = Some (Suc g)"

definition example_resnet_args :: resnet_args where
  "example_resnet_args =
     \<lparr>in_size = [3, 32, 32], out_classes = 10, channels = [8, 16, 32], pool_every = 2,
      hidden_dims = [100], conv_params = [], activation_type = ''relu'',
      activation_params = [], pooling_type = ''max'',
      pooling_params = [(''kernel_size'', 2)], batchnorm = True, dropout = 0\<rparr>"

definition example_resnet ::
  "(\<lparr>batchnorm :: bool, dropout :: real\<rparr>, module) conv_classifier" where
  "example_resnet =
     \<lparr>args = example_resnet_args, self_pools_num = 1, features_num = 8192,
      feature_extractor =
        Sequential
          [Block \<lparr>main_path =
                    Sequential [Conv2d 3 8 3 1 1 1 True, Dropout2d 0, BatchNorm2d 8, ReLU,
                                Conv2d 8 16 3 1 1 1 True],
                  shortcut_path = Sequential [Conv2d 3 16 1 1 0 1 False]\<rparr>,
           Layer (MaxPool2d 2 2 0 1),
           Block \<lparr>main_path = Sequential [Conv2d 16 32 3 1 1 1 True],
                  shortcut_path = Sequential [Conv2d 16 32 1 1 0 1 False]\<rparr>],
      classifier = Sequential [Linear 8192 100, ReLU, Linear 100 10]\<rparr>"

text \<open>
  A framework whose ambient state is the list of the constructor calls made so far, in
  the order in which they were made.
\<close>

definition recording :: "layer list framework" where
  "recording l g = Some (g @ [l])"

text \<open>The framework layers inside an element of a feature extractor, main path first.\<close>

fun module_layers :: "module \<Rightarrow> layer list" where
  "module_layers (Layer l) = [l]"
| "module_layers (Block blk) = modules (main_path blk) @ modules (shortcut_path blk)"

text \<open>The list under construction holds the layers created since \<open>base\<close>, in that order.\<close>

definition records_layers :: "layer list \<Rightarrow> (layer, layer list, 'z) build_scheme \<Rightarrow> bool" where
  "records_layers base st \<longleftrightarrow> ambient st = base @ layers st"

definition records_modules :: "layer list \<Rightarrow> (module, layer list, 'z) build_scheme \<Rightarrow> bool" where
  "records_modules base st \<longleftrightarrow> ambient st = base @ concat (map module_layers (layers st))"

definition example_your_code_net :: "(unit, module) your_code_net" where
  "example_your_code_net =
     \<lparr>args = example_args, self_pools_num = 1, features_num = 8192,
      feature_extractor =
        Sequential
          [Block \<lparr>main_path =
                    Sequential [Conv2d 3 8 3 1 1 1 True, Dropout2d 0, BatchNorm2d 8, ReLU,
                                Conv2d 8 16 3 1 1 1 True],
                  shortcut_path = Sequential [Conv2d 3 16 1 1 0 1 False]\<rparr>,
           Layer (MaxPool2d 2 2 0 1), Layer (Dropout2d (1 / 10)),
           Block \<lparr>main_path = Sequential [Conv2d 16 32 3 1 1 1 True],
                  shortcut_path = Sequential [Conv2d 16 32 1 1 0 1 False]\<rparr>],
      classifier = Sequential [Linear 8192 100, ReLU, Linear 100 10],
      yc_dropout = Dropout (1 / 10)\<rparr>"

section \<open>Division of integers\<close>

lemma round_half_even_cases:
  assumes "0 < d"
  shows "round_half_even n d = n div d \<or>
         (round_half_even n d = n div d + 1 \<and> d \<le> 2 * (n mod d))"
  by (auto simp: round_half_even_def Let_def)

lemma round_half_even_zero: "0 < d \<Longrightarrow> round_half_even 0 d = 0"
  by (simp add: round_half_even_def)

lemma round_half_even_one: "round_half_even n 1 = n"
  by (simp add: round_half_even_def)

lemma binary_exponent_lower:
  assumes "0 < n" "0 < d" "0 \<le> binary_exponent n d"
  shows "d * 2 ^ nat (binary_exponent n d) \<le> n"
proof -
  let ?k = "bitlen n - bitlen d"
  show ?thesis
  proof (cases "if 0 \<le> ?k then d * 2 ^ nat ?k \<le> n else d \<le> n * 2 ^ nat (- ?k)")
    case True
    then have e: "binary_exponent n d = ?k" by (simp add: binary_exponent_def Let_def)
    with assms(3) have "0 \<le> ?k" by simp
    with True show ?thesis unfolding e by simp
  next
    case False
    then have e: "binary_exponent n d = ?k - 1" by (simp add: binary_exponent_def Let_def)
    with assms(3) have k: "1 \<le> ?k" by simp
    have bn: "2 ^ nat (bitlen n - 1) \<le> n" using bitlen_bounds[OF assms(1)] by simp
    have bd: "d < 2 ^ nat (bitlen d)" using bitlen_bounds[OF assms(2)] by simp
    have "0 \<le> bitlen d" by (rule bitlen_nonneg)
    with k have "nat (bitlen n - 1) = nat (bitlen d) + nat (?k - 1)" by simp
    then have "(2::int) ^ nat (bitlen n - 1) = 2 ^ nat (bitlen d) * 2 ^ nat (?k - 1)"
      by (simp add: power_add)
    moreover from bd have "d * 2 ^ nat (?k - 1) \<le> 2 ^ nat (bitlen d) * 2 ^ nat (?k - 1)"
      by (simp add: mult_right_mono)
    ultimately show ?thesis using bn unfolding e by linarith
  qed
qed

lemma binary_exponent_zero: "0 < d \<Longrightarrow> binary_exponent 0 d < 0"
proof -
  assume d: "0 < d"
  have "\<not> bitlen d \<le> 0"
  proof
    assume "bitlen d \<le> 0"
    with bitlen_bounds[OF d] show False using d by simp
  qed
  then show ?thesis by (simp add: binary_exponent_def Let_def)
qed

lemma binary_exponent_small:
  assumes "0 \<le> n" "n < 2 ^ 53" "0 < d"
  shows "binary_exponent n d \<le> 52"
proof (rule ccontr)
  assume "\<not> binary_exponent n d \<le> 52"
  then have e: "53 \<le> binary_exponent n d" by simp
  with binary_exponent_zero[OF assms(3)] assms(1) have n: "0 < n" by (cases "n = 0") auto
  from e have "0 \<le> binary_exponent n d" by simp
  from binary_exponent_lower[OF n assms(3) this]
  have "d * 2 ^ nat (binary_exponent n d) \<le> n" .
  moreover have "(2::int) ^ 53 \<le> 2 ^ nat (binary_exponent n d)"
    using e by (intro power_increasing) simp_all
  moreover have "(2::int) ^ nat (binary_exponent n d) \<le> d * 2 ^ nat (binary_exponent n d)"
    using assms(3) by simp
  ultimately show False using assms(2) by linarith
qed


lemma scaled_div:
  fixes n d :: int
  assumes "0 < d"
  shows "(n * 2 ^ t) div d div 2 ^ t = n div d"
proof -
  have "(n * 2 ^ t) div d div 2 ^ t = (n * 2 ^ t) div (d * 2 ^ t)"
    by (simp add: zdiv_zmult2_eq)
  also have "\<dots> = n div d" by simp
  finally show ?thesis .
qed

lemma carry_bound:
  fixes n d c :: int
  assumes "0 < d" "0 < c" "0 \<le> n"
    and "d \<le> 2 * ((n * c) mod d)"
    and "c dvd ((n * c) div d + 1)"
  shows "2 * c \<le> d" and "c \<le> n"
proof -
  define x where "x = (n * c) div d"
  define r where "r = (n * c) mod d"
  have N: "n * c = d * x + r" unfolding x_def r_def by simp
  have r: "0 \<le> r" "r < d" unfolding r_def using assms(1) by simp_all
  have x0: "0 \<le> x" unfolding x_def using assms(1,2,3) by (simp add: pos_imp_zdiv_nonneg_iff)
  from assms(5) obtain j where j: "x + 1 = c * j" unfolding x_def by (auto simp: dvd_def)
  have j1: "1 \<le> j"
  proof (rule ccontr)
    assume "\<not> 1 \<le> j"
    then have "j \<le> 0" by simp
    with assms(2) have "c * j \<le> 0" by (simp add: mult_le_0_iff)
    with j x0 show False by simp
  qed
  have "n * c = d * (c * j - 1) + r" using N j by simp
  then have eq: "c * (d * j - n) = d - r" by (simp add: algebra_simps)
  have "0 < c * (d * j - n)" using eq r by simp
  with assms(2) have "0 < d * j - n" by (simp add: zero_less_mult_iff)
  then have "1 \<le> d * j - n" by simp
  with assms(2) have "c * 1 \<le> c * (d * j - n)" by (intro mult_left_mono) simp_all
  with eq have cr: "c \<le> d - r" by simp
  from assms(4) have dr: "2 * (d - r) \<le> d" unfolding r_def by simp
  from cr dr show c2: "2 * c \<le> d" by simp
  have "d * 1 \<le> d * j" using assms(1) j1 by (intro mult_left_mono) simp_all
  then have "c * d \<le> c * (d * j)" using assms(2) by (intro mult_left_mono) simp_all
  with eq have "c * d - (d - r) \<le> c * n" by (simp add: algebra_simps)
  with dr have "2 * (c * d) - d \<le> 2 * (c * n)" by simp
  moreover have "c * d \<le> 2 * (c * d) - d"
  proof -
    have "d * 1 \<le> d * c" using assms(1,2) by (intro mult_left_mono) simp_all
    then show ?thesis by (simp add: algebra_simps)
  qed
  moreover have "c * (2 * c) \<le> c * d" using c2 assms(2) by (intro mult_left_mono) simp_all
  ultimately have "c * (2 * c) \<le> c * (2 * n)" by (simp add: algebra_simps)
  with assms(2) have "2 * c \<le> 2 * n" by (simp add: mult_le_cancel_left_pos)
  then show "c \<le> n" by simp
qed

lemma div_succ_no_carry:
  fixes x c :: int
  assumes "0 < c" "\<not> c dvd (x + 1)"
  shows "(x + 1) div c = x div c"
proof -
  have lt: "x mod c + 1 < c"
  proof (rule ccontr)
    assume "\<not> x mod c + 1 < c"
    moreover have "x mod c < c" using assms(1) by simp
    ultimately have "x mod c = c - 1" by simp
    then have "(x + 1) mod c = 0" by (metis add.commute diff_add_cancel mod_add_left_eq mod_self)
    with assms(2) show False by (simp add: dvd_eq_mod_eq_0)
  qed
  have ge: "0 \<le> x mod c + 1" using assms(1) by (simp add: add_nonneg_nonneg)
  have eq: "x + 1 = c * (x div c) + (x mod c + 1)" by simp
  from eq ge lt show ?thesis by (rule int_div_pos_eq)
qed

lemma nearest_double_small:
  assumes "0 \<le> n" "n < 2 ^ 53" "0 < d"
  shows "\<exists>m s. nearest_double n d = (m, s) \<and> s \<le> 0 \<and> 0 \<le> m \<and>
               m div 2 ^ nat (- s) = n div d"
proof -
  define e where "e = binary_exponent n d"
  define s where "s = max (e - 52) (- 1074)"
  have e52: "e \<le> 52" unfolding e_def using assms by (rule binary_exponent_small)
  then have s0: "s \<le> 0" unfolding s_def by simp
  show ?thesis
  proof (cases "s = 0")
    case True
    then have e: "e = 52" using e52 unfolding s_def by simp
    with binary_exponent_zero[OF assms(3)] assms(1) have n: "0 < n"
      unfolding e_def by (cases "n = 0") auto
    from binary_exponent_lower[OF n assms(3)] e have "d * 2 ^ 52 \<le> n"
      unfolding e_def by simp
    with assms(2) have "d * 2 ^ 52 < 2 * 2 ^ 52" by simp
    then have "d < 2" by simp
    with assms(3) have d: "d = 1" by simp
    from e have be: "binary_exponent n d = 52" unfolding e_def .
    have "nearest_double n d = (round_half_even n d, 0)"
      by (simp add: nearest_double_def be)
    then have "nearest_double n d = (n, 0)" unfolding d by (simp add: round_half_even_one)
    with assms(1) show ?thesis unfolding d by simp
  next
    case False
    with s0 have sneg: "s < 0" by simp
    define t where "t = nat (- s)"
    have t0: "0 < t" unfolding t_def using sneg by simp
    define m where "m = round_half_even (n * 2 ^ t) d"
    define x where "x = (n * 2 ^ t) div d"
    have nd: "nearest_double n d = (m, s)"
      using sneg unfolding nearest_double_def Let_def e_def[symmetric] s_def[symmetric]
        m_def t_def by simp
    have xq: "x div 2 ^ t = n div d" unfolding x_def using assms(3) by (rule scaled_div)
    have x0: "0 \<le> x" unfolding x_def using assms(1,3) by (simp add: pos_imp_zdiv_nonneg_iff)
    from round_half_even_cases[OF assms(3), of "n * 2 ^ t"]
    consider "m = x" | "m = x + 1" "d \<le> 2 * ((n * 2 ^ t) mod d)"
      unfolding m_def x_def by blast
    then have "0 \<le> m \<and> m div 2 ^ t = n div d"
    proof cases
      case 1
      with xq x0 show ?thesis by simp
    next
      case 2
      have "\<not> 2 ^ t dvd (x + 1)"
      proof
        assume dv: "(2::int) ^ t dvd (x + 1)"
        have c: "(0::int) < 2 ^ t" by simp
        from dv have dv': "(2::int) ^ t dvd ((n * 2 ^ t) div d + 1)" unfolding x_def .
        note cb = carry_bound[OF assms(3) c assms(1) 2(2) dv']
        show False
        proof (cases "53 \<le> t")
          case True
          then have "(2::int) ^ 53 \<le> 2 ^ t" by (intro power_increasing) simp_all
          with cb(2) assms(2) show False by simp
        next
          case False
          then have "- 1074 < s" unfolding t_def by simp
          then have se: "s = e - 52" unfolding s_def by simp
          then have et: "e = 52 - int t" unfolding t_def using sneg by simp
          with False have e0: "0 \<le> e" by simp
          have "(1::int) \<le> 2 ^ t" by simp
          with cb(2) have n: "0 < n" by linarith
          from binary_exponent_lower[OF n assms(3)] e0
          have "d * 2 ^ nat e \<le> n" unfolding e_def by simp
          moreover have "2 * 2 ^ t * 2 ^ nat e \<le> d * 2 ^ nat e"
            using cb(1) by (intro mult_right_mono) simp_all
          moreover have "(2::int) * 2 ^ t * 2 ^ nat e = 2 ^ 53"
          proof -
            from et False have "Suc (t + nat e) = 53" by simp
            then have "(2::int) ^ Suc (t + nat e) = 2 ^ 53" by simp
            then show ?thesis by (simp add: power_add)
          qed
          ultimately show False using assms(2) by simp
        qed
      qed
      then have "(x + 1) div 2 ^ t = x div 2 ^ t" by (intro div_succ_no_carry) simp_all
      with 2(1) xq x0 show ?thesis by simp
    qed
    with nd s0 show ?thesis unfolding t_def by blast
  qed
qed

lemma int_truediv_exact:
  assumes "b \<noteq> 0" "\<bar>a\<bar> < 2 ^ 53"
  shows "int_truediv a b = Inr (trunc_quot a b)"
proof -
  have "0 \<le> \<bar>a\<bar>" "0 < \<bar>b\<bar>" using assms(1) by simp_all
  from nearest_double_small[OF this(1) assms(2) this(2)] obtain m s where
    nd: "nearest_double \<bar>a\<bar> \<bar>b\<bar> = (m, s)" and s: "s \<le> 0" and m: "0 \<le> m"
    and q: "m div 2 ^ nat (- s) = \<bar>a\<bar> div \<bar>b\<bar>" by blast
  have qd: "quotient_double a b = (sgn a * sgn b * m, s)"
    by (simp add: quotient_double_def nd)
  have fin: "finite_double (quotient_double a b)"
  proof (cases "s = 0")
    case True
    with q have "m = \<bar>a\<bar> div \<bar>b\<bar>" by simp
    also have "\<dots> \<le> \<bar>a\<bar> div 1" by (rule zdiv_mono2) (use assms(1) in simp_all)
    finally have "m < 2 ^ 53" using assms(2) by simp
    also have "(2::int) ^ 53 \<le> 2 ^ 1024" by (intro power_increasing) simp_all
    finally have "m < 2 ^ 1024" .
    moreover have "\<bar>sgn a * sgn b * m\<bar> \<le> m" using m by (simp add: abs_mult abs_sgn_eq)
    ultimately show ?thesis unfolding qd finite_double_def using True by simp
  next
    case False
    with s show ?thesis unfolding qd finite_double_def by simp
  qed
  have "int_of_double (quotient_double a b) = trunc_quot a b"
  proof (cases "s = 0")
    case True
    with q show ?thesis unfolding qd int_of_double_def trunc_quot_def by simp
  next
    case False
    with s have sn: "\<not> 0 \<le> s" by simp
    show ?thesis
    proof (cases "a = 0 \<or> m = 0")
      case True
      then have "\<bar>a\<bar> div \<bar>b\<bar> = 0" using q by auto
      with True show ?thesis unfolding qd int_of_double_def trunc_quot_def using sn by auto
    next
      case False
      with m have mp: "0 < m" and a: "a \<noteq> 0" by simp_all
      have "sgn (sgn a * sgn b * m) = sgn a * sgn b" using mp by (simp add: sgn_mult)
      moreover have "\<bar>sgn a * sgn b * m\<bar> = m" using mp a assms(1) by (simp add: abs_mult abs_sgn_eq)
      ultimately show ?thesis unfolding qd int_of_double_def trunc_quot_def using sn q by simp
    qed
  qed
  with fin assms(1) show ?thesis by (simp add: int_truediv_def truediv_def)
qed

section \<open>ConvClassifier: what a successful construction has built\<close>

lemma py_index_nonneg:
  "0 \<le> i \<Longrightarrow> py_index xs i = (if nat i < length xs then Inr (xs ! nat i) else Inl IndexError)"
  by (auto simp: py_index_def)

lemma py_index_last:
  "py_index xs (- 1) = (if xs = [] then Inl IndexError else Inr (last xs))"
  by (cases xs rule: rev_cases) (auto simp: py_index_def nth_append)

lemma int_truediv_cases:
  "int_truediv a b =
     (if b = 0 then Inl ZeroDivisionError
      else if finite_double (quotient_double a b) then Inr (quotient_int a b)
      else Inl OverflowError)"
  by (simp add: int_truediv_def truediv_def quotient_int_def)

lemma int_truediv_Inr_iff:
  "int_truediv a b = Inr v \<longleftrightarrow>
     b \<noteq> 0 \<and> finite_double (quotient_double a b) \<and> v = quotient_int a b"
  by (auto simp: int_truediv_cases)

lemma out_size_cases:
  "out_size p sz =
     (if size_defined p sz then Inr (size_update p sz)
      else Inl (if stride p = 0 then ZeroDivisionError else OverflowError))"
  by (simp add: out_size_def int_truediv_cases size_update_def size_defined_def
        size_numerator_def)

lemma out_size_Inr_iff:
  "out_size p sz = Inr v \<longleftrightarrow> size_defined p sz \<and> v = size_update p sz"
  by (auto simp: out_size_cases)

lemma update_sizes_Inr_iff:
  "update_sizes p st = Inr st' \<longleftrightarrow>
     size_defined p (in_h st) \<and> size_defined p (in_w st) \<and>
     st' = st\<lparr>in_h := size_update p (in_h st), in_w := size_update p (in_w st)\<rparr>"
  by (auto simp: update_sizes_def out_size_cases)

lemma size_defined_stride: "size_defined p sz \<Longrightarrow> stride p \<noteq> 0"
  by (simp add: size_defined_def)

lemma append_new_Inr_iff:
  "append_new fw l st = Inr st' \<longleftrightarrow>
     (\<exists>g'. fw l (ambient st) = Some g' \<and> st' = st\<lparr>layers := layers st @ [l], ambient := g'\<rparr>)"
  by (auto simp: append_new_def new_layer_def split: option.splits)

lemma fe_activation_Inr:
  assumes "fe_activation fw self st = Inr st'"
  shows "layers st' = layers st @ fe_activation_layers self"
    and "in_h st' = in_h st" and "in_w st' = in_w st" and "pools_num st' = pools_num st"
  using assms
  by (auto simp: fe_activation_def fe_activation_layers_def dict_get_def append_new_Inr_iff
           split: if_splits option.splits sum.splits)

lemma fe_pooling_Inr:
  assumes "fe_pooling fw self pp idx st = Inr st'"
  shows "pool_every self \<noteq> 0"
    and "layers st' = layers st @
           (if int idx mod pool_every self = 0 then pooling_layers self pp else [])"
    and "in_h st' = (if int idx mod pool_every self = 0 then size_update pp (in_h st) else in_h st)"
    and "in_w st' = (if int idx mod pool_every self = 0 then size_update pp (in_w st) else in_w st)"
    and "pools_num st' = pools_num st + (if int idx mod pool_every self = 0 then 1 else 0)"
  using assms
  by (auto simp: fe_pooling_def pooling_layers_def append_new_Inr_iff update_sizes_Inr_iff
           split: if_splits sum.splits)

lemma fe_body_Inr:
  assumes "fe_body fw self fl cp pp idx st = Inr st'" and "1 \<le> idx"
  shows "layers st' = layers st @ fe_group self fl cp pp idx"
    and "in_h st' = size_step cp pp (pool_every self) idx (in_h st)"
    and "in_w st' = size_step cp pp (pool_every self) idx (in_w st)"
    and "pools_num st' = pools_num st + (if int idx mod pool_every self = 0 then 1 else 0)"
    and "pool_every self \<noteq> 0" and "stride cp \<noteq> 0"
proof -
  from assms obtain st1 st2 st3 where
    1: "append_new fw (Conv2d (fl ! (idx - 1)) (fl ! idx)
          (kernel cp) (stride cp) (padding cp) (dilation cp) True) st = Inr st1"
    and 2: "update_sizes cp st1 = Inr st2"
    and 3: "fe_activation fw self st2 = Inr st3"
    and 4: "fe_pooling fw self pp idx st3 = Inr st'"
    by (auto simp: fe_body_def py_index_nonneg nat_diff_distrib split: sum.splits if_splits)
  note a = fe_activation_Inr[OF 3] and p = fe_pooling_Inr[OF 4]
  from 1 2 show "layers st' = layers st @ fe_group self fl cp pp idx"
    by (auto simp: a p fe_group_def append_new_Inr_iff update_sizes_Inr_iff)
  from 1 2 show "in_h st' = size_step cp pp (pool_every self) idx (in_h st)"
    by (auto simp: a p size_step_def append_new_Inr_iff update_sizes_Inr_iff)
  from 1 2 show "in_w st' = size_step cp pp (pool_every self) idx (in_w st)"
    by (auto simp: a p size_step_def append_new_Inr_iff update_sizes_Inr_iff)
  from 1 2 show "pools_num st' = pools_num st + (if int idx mod pool_every self = 0 then 1 else 0)"
    by (auto simp: a p append_new_Inr_iff update_sizes_Inr_iff)
  show "pool_every self \<noteq> 0" by (rule p)
  from 2 show "stride cp \<noteq> 0" by (simp add: update_sizes_Inr_iff size_defined_def)
qed

lemma fe_loop_Cons_Inr:
  assumes "fe_loop fw self fl cp pp (idx # idxs) st = Inr st'"
  obtains st1 where "fe_body fw self fl cp pp idx st = Inr st1"
    and "fe_loop fw self fl cp pp idxs st1 = Inr st'"
  using assms by (auto split: sum.splits)

lemma fe_loop_layers:
  assumes "fe_loop fw self fl cp pp idxs st = Inr st'" and "\<forall>i \<in> set idxs. 1 \<le> i"
  shows "layers st' = layers st @ concat (map (fe_group self fl cp pp) idxs)"
  using assms
proof (induction idxs arbitrary: st)
  case Nil
  then show ?case by simp
next
  case (Cons idx idxs)
  from Cons.prems(1) obtain st1 where b: "fe_body fw self fl cp pp idx st = Inr st1"
    and l: "fe_loop fw self fl cp pp idxs st1 = Inr st'"
    by (rule fe_loop_Cons_Inr)
  from Cons.prems(2) have i: "1 \<le> idx" and r: "\<forall>i \<in> set idxs. 1 \<le> i" by simp_all
  show ?case using Cons.IH[OF l r] fe_body_Inr(1)[OF b i] by simp
qed

lemma fe_loop_sizes:
  assumes "fe_loop fw self fl cp pp idxs st = Inr st'" and "\<forall>i \<in> set idxs. 1 \<le> i"
  shows "in_h st' = fold (size_step cp pp (pool_every self)) idxs (in_h st)"
    and "in_w st' = fold (size_step cp pp (pool_every self)) idxs (in_w st)"
  using assms
proof (induction idxs arbitrary: st)
  case Nil
  { case 1 then show ?case by simp }
  { case 2 then show ?case by simp }
next
  case (Cons idx idxs)
  { case 1
    from 1(1) obtain st1 where b: "fe_body fw self fl cp pp idx st = Inr st1"
      and l: "fe_loop fw self fl cp pp idxs st1 = Inr st'"
      by (rule fe_loop_Cons_Inr)
    from 1(2) have i: "1 \<le> idx" and r: "\<forall>i \<in> set idxs. 1 \<le> i" by simp_all
    show ?case using Cons.IH(1)[OF l r] fe_body_Inr(2)[OF b i] by simp }
  { case 2
    from 2(1) obtain st1 where b: "fe_body fw self fl cp pp idx st = Inr st1"
      and l: "fe_loop fw self fl cp pp idxs st1 = Inr st'"
      by (rule fe_loop_Cons_Inr)
    from 2(2) have i: "1 \<le> idx" and r: "\<forall>i \<in> set idxs. 1 \<le> i" by simp_all
    show ?case using Cons.IH(2)[OF l r] fe_body_Inr(3)[OF b i] by simp }
qed

lemma fe_loop_nonzero:
  assumes "fe_loop fw self fl cp pp idxs st = Inr st'" and "\<forall>i \<in> set idxs. 1 \<le> i"
    and "idxs \<noteq> []"
  shows "pool_every self \<noteq> 0" and "stride cp \<noteq> 0"
proof -
  from assms(3) obtain idx rest where c: "idxs = idx # rest" by (cases idxs) auto
  from assms(1)[unfolded c] obtain st1 where b: "fe_body fw self fl cp pp idx st = Inr st1"
    by (rule fe_loop_Cons_Inr)
  from assms(2) c have i: "1 \<le> idx" by simp
  show "pool_every self \<noteq> 0" by (rule fe_body_Inr(5)[OF b i])
  show "stride cp \<noteq> 0" by (rule fe_body_Inr(6)[OF b i])
qed

lemma fold_size_step_spatial:
  "fold (size_step cp pp P) [Suc 0 ..< Suc n] sz =
     spatial_after (size_update cp) (size_update pp) P n sz"
proof (induction n)
  case 0
  show ?case by simp
next
  case (Suc n)
  have "[Suc 0 ..< Suc (Suc n)] = [Suc 0 ..< Suc n] @ [Suc n]" by simp
  then have "fold (size_step cp pp P) [Suc 0 ..< Suc (Suc n)] sz =
      size_step cp pp P (Suc n) (fold (size_step cp pp P) [Suc 0 ..< Suc n] sz)"
    by (simp only: fold_append fold_simps comp_apply id_apply)
  also have "\<dots> = size_step cp pp P (Suc n)
      (spatial_after (size_update cp) (size_update pp) P n sz)"
    by (simp only: Suc)
  also have "\<dots> = spatial_after (size_update cp) (size_update pp) P (Suc n) sz"
    by (simp add: size_step_def Let_def)
  finally show ?case .
qed

lemma make_feature_extractor_Inr:
  assumes "ConvClassifier_make_feature_extractor fw self g = Inr (fe, g')"
  obtains C H W cp pp where "in_size self = [C, H, W]"
    and "read_conv_params (conv_params self) = Inr cp"
    and "read_pooling_params (pooling_params self) = Inr pp"
    and "channels self \<noteq> []"
    and "modules (fe_seq fe) =
           concat (map (fe_group self (C # channels self) cp pp) [1 ..< Suc (length (channels self))])"
    and "fe_features_num fe =
           last (channels self)
           * spatial_after (size_update cp) (size_update pp) (pool_every self)
               (length (channels self)) H
           * spatial_after (size_update cp) (size_update pp) (pool_every self)
               (length (channels self)) W"
    and "pool_every self \<noteq> 0" and "stride cp \<noteq> 0"
proof -
  from assms obtain C H W where s: "in_size self = [C, H, W]"
    by (auto simp: ConvClassifier_make_feature_extractor_def split: list.splits)
  from assms s obtain cp where cp: "read_conv_params (conv_params self) = Inr cp"
    by (auto simp: ConvClassifier_make_feature_extractor_def Let_def split: sum.splits)
  from assms s cp obtain pp where pp: "read_pooling_params (pooling_params self) = Inr pp"
    by (auto simp: ConvClassifier_make_feature_extractor_def Let_def split: sum.splits)
  let ?idxs = "[1 ..< Suc (length (channels self))]"
  from assms s cp pp obtain st where
    l: "fe_loop fw self (C # channels self) cp pp ?idxs
          \<lparr>layers = [], ambient = g, in_h = H, in_w = W, pools_num = 0\<rparr> = Inr st"
    and f: "fe_finish self st = Inr (fe, g')"
    by (auto simp: ConvClassifier_make_feature_extractor_def Let_def simp del: upt_Suc
             split: sum.splits)
  have r: "\<forall>i \<in> set ?idxs. 1 \<le> i" by auto
  from f have ne: "channels self \<noteq> []"
    by (auto simp: fe_finish_def py_index_last split: if_splits)
  then have ne': "?idxs \<noteq> []" by (cases "channels self") simp_all
  from f ne have fe: "fe = \<lparr>fe_seq = Sequential (layers st), fe_pools_num = pools_num st,
      fe_features_num = last (channels self) * in_h st * in_w st\<rparr>"
    by (auto simp: fe_finish_def py_index_last)
  show thesis
  proof (rule that[OF s cp pp ne])
    show "modules (fe_seq fe) = concat (map (fe_group self (C # channels self) cp pp) ?idxs)"
      using fe_loop_layers[OF l r] fe by (simp del: upt_Suc)
    show "fe_features_num fe =
           last (channels self)
           * spatial_after (size_update cp) (size_update pp) (pool_every self)
               (length (channels self)) H
           * spatial_after (size_update cp) (size_update pp) (pool_every self)
               (length (channels self)) W"
      using fe_loop_sizes[OF l r] fe by (simp add: fold_size_step_spatial del: upt_Suc)
    show "pool_every self \<noteq> 0" by (rule fe_loop_nonzero(1)[OF l r ne'])
    show "stride cp \<noteq> 0" by (rule fe_loop_nonzero(2)[OF l r ne'])
  qed
qed

lemma init_with_Inr:
  assumes "ConvClassifier_init_with make_fe fw a g = Inr (m, g')"
  obtains fe g1 cl where "channels a \<noteq> []" and "hidden_dims a \<noteq> []"
    and "activation_type a \<in> set ACTIVATIONS" and "pooling_type a \<in> set POOLINGS"
    and "make_fe fw a g = Inr (fe, g1)"
    and "make_classifier fw a (fe_features_num fe) g1 = Inr (cl, g')"
    and "m = \<lparr>args = a, self_pools_num = fe_pools_num fe, features_num = fe_features_num fe,
              feature_extractor = fe_seq fe, classifier = cl\<rparr>"
  using assms
  by (auto simp: ConvClassifier_init_with_def split: if_splits sum.splits prod.splits)

lemma example_classifier_built:
  "ConvClassifier_init accept_all example_args () = Inr (example_classifier, ())"
  by code_simp

subsection \<open>The number of features\<close>





lemma tail_not_multiple:
  fixes p :: nat
  assumes "0 < p" "N - N mod p < i" "i \<le> N"
  shows "i mod p \<noteq> 0"
proof
  assume "i mod p = 0"
  then have 1: "p dvd i" by auto
  have 2: "p dvd (N - N mod p)" by (simp add: dvd_minus_mod)
  from 1 2 have "p dvd (i - (N - N mod p))" by (rule dvd_diff_nat)
  moreover have "0 < i - (N - N mod p)" using assms by simp
  moreover have "N mod p < p" using assms(1) by simp
  then have "i - (N - N mod p) < p" using assms(3) mod_less_eq_dividend[of N p] by linarith
  ultimately show False using nat_dvd_not_less by blast
qed

lemma count_step:
  assumes "0 < P"
  shows "nat (int (Suc N) div P) = nat (int N div P) + (if int (Suc N) mod P = 0 then 1 else 0)"
proof -
  from assms obtain p where p: "P = int p" "0 < p"
    by (metis zero_less_imp_eq_int)
  have "int (Suc N) div int p = int (Suc N div p)" "int N div int p = int (N div p)"
    "int (Suc N) mod int p = int (Suc N mod p)"
    by (simp_all only: zdiv_int zmod_int)
  then show ?thesis unfolding p by (simp add: div_Suc del: of_nat_Suc)
qed

lemma count_multiples:
  "0 < P \<Longrightarrow> length (filter (\<lambda>i. int i mod P = 0) [Suc 0 ..< Suc N]) = nat (int N div P)"
proof (induction N)
  case 0
  then show ?case by simp
next
  case (Suc N)
  have "[Suc 0 ..< Suc (Suc N)] = [Suc 0 ..< Suc N] @ [Suc N]" by simp
  then have "length (filter (\<lambda>i. int i mod P = 0) [Suc 0 ..< Suc (Suc N)]) =
      length (filter (\<lambda>i. int i mod P = 0) [Suc 0 ..< Suc N])
      + (if int (Suc N) mod P = 0 then 1 else 0)"
    by (simp only: filter_append length_append) simp
  with Suc show ?case by (simp only: count_step)
qed

lemma filter_sequence:
  "filter Q (conv_act_pool_sequence fl cp A PL P N) =
     concat (map (\<lambda>i. filter Q (conv_act_pool_group fl cp A PL P i)) [Suc 0 ..< Suc N])"
  by (simp add: conv_act_pool_sequence_def filter_concat comp_def del: upt_Suc)

lemma length_concat_const:
  "(\<And>i. i \<in> set xs \<Longrightarrow> length (f i) = c) \<Longrightarrow> length (concat (map f xs)) = c * length xs"
  by (induction xs) auto

lemma length_concat_indicator:
  "(\<And>i. i \<in> set xs \<Longrightarrow> length (f i) = (if Q i then 1 else 0)) \<Longrightarrow>
     length (concat (map f xs)) = length (filter Q xs)"
  by (induction xs) auto

lemma sequence_count_conv:
  assumes "is_activation A" "is_pooling PL"
  shows "length (filter is_conv (conv_act_pool_sequence fl cp A PL P N)) = N"
proof -
  have "\<And>i. length (filter is_conv (conv_act_pool_group fl cp A PL P i)) = 1"
    using assms by (cases A; cases PL) (simp_all add: conv_act_pool_group_def)
  then show ?thesis
    by (simp add: filter_sequence length_concat_const[where c = 1] del: upt_Suc)
qed

lemma sequence_count_activation:
  assumes "is_activation A" "is_pooling PL"
  shows "length (filter is_activation (conv_act_pool_sequence fl cp A PL P N)) = N"
proof -
  have "\<And>i. length (filter is_activation (conv_act_pool_group fl cp A PL P i)) = 1"
    using assms by (cases A; cases PL) (simp_all add: conv_act_pool_group_def)
  then show ?thesis
    by (simp add: filter_sequence length_concat_const[where c = 1] del: upt_Suc)
qed

lemma sequence_count_pooling:
  assumes "is_activation A" "is_pooling PL" "0 < P"
  shows "length (filter is_pooling (conv_act_pool_sequence fl cp A PL P N)) = nat (int N div P)"
proof -
  have "\<And>i. length (filter is_pooling (conv_act_pool_group fl cp A PL P i)) =
      (if int i mod P = 0 then 1 else 0)"
    using assms by (cases A; cases PL) (simp_all add: conv_act_pool_group_def)
  then have "length (filter is_pooling (conv_act_pool_sequence fl cp A PL P N)) =
      length (filter (\<lambda>i. int i mod P = 0) [Suc 0 ..< Suc N])"
    unfolding filter_sequence by (intro length_concat_indicator) simp
  with assms(3) show ?thesis by (simp only: count_multiples)
qed

lemma sequence_split:
  assumes "k \<le> N"
  shows "conv_act_pool_sequence fl cp A PL P N =
     concat (map (conv_act_pool_group fl cp A PL P) [Suc 0 ..< Suc k])
     @ concat (map (conv_act_pool_group fl cp A PL P) [Suc k ..< Suc N])"
proof -
  have "[Suc 0 ..< Suc k + (N - k)] = [Suc 0 ..< Suc k] @ [Suc k ..< Suc k + (N - k)]"
    by (rule upt_add_eq_append) simp
  moreover from assms have "Suc k + (N - k) = Suc N" by simp
  ultimately have "[Suc 0 ..< Suc N] = [Suc 0 ..< Suc k] @ [Suc k ..< Suc N]"
    by (simp only:)
  then show ?thesis
    by (simp add: conv_act_pool_sequence_def del: upt_Suc)
qed

lemma sequence_trailing:
  assumes "0 < P"
  shows "drop (length (conv_act_pool_sequence fl cp A PL P N) - 2 * nat (int N mod P))
           (conv_act_pool_sequence fl cp A PL P N) =
         concat (map (\<lambda>i. [Conv2d (fl ! (i - 1)) (fl ! i)
                               (kernel cp) (stride cp) (padding cp) (dilation cp) True, A])
                   [Suc (N - nat (int N mod P)) ..< Suc N])"
proof -
  from assms obtain p where p: "P = int p" "0 < p"
    by (metis zero_less_imp_eq_int)
  have r: "nat (int N mod P) = N mod p" unfolding p by (simp add: zmod_int[symmetric])
  let ?k = "N - N mod p"
  let ?pair = "\<lambda>i. [Conv2d (fl ! (i - 1)) (fl ! i)
                      (kernel cp) (stride cp) (padding cp) (dilation cp) True, A]"
  let ?X = "concat (map (conv_act_pool_group fl cp A PL P) [Suc 0 ..< Suc ?k])"
  let ?Y = "concat (map (conv_act_pool_group fl cp A PL P) [Suc ?k ..< Suc N])"
  have split: "conv_act_pool_sequence fl cp A PL P N = ?X @ ?Y"
    by (rule sequence_split) simp
  have grp: "conv_act_pool_group fl cp A PL P i = ?pair i" if "i \<in> set [Suc ?k ..< Suc N]" for i
  proof -
    from that have "?k < i" "i \<le> N" by auto
    with p(2) have "i mod p \<noteq> 0" by (intro tail_not_multiple)
    then have "int i mod P \<noteq> 0" unfolding p by (simp add: zmod_int[symmetric])
    then show ?thesis by (simp add: conv_act_pool_group_def)
  qed
  have "map (conv_act_pool_group fl cp A PL P) [Suc ?k ..< Suc N] = map ?pair [Suc ?k ..< Suc N]"
    by (rule map_cong, rule refl, erule grp)
  then have Y: "?Y = concat (map ?pair [Suc ?k ..< Suc N])"
    by (simp only:)
  have n: "length [Suc ?k ..< Suc N] = N mod p"
    using mod_less_eq_dividend[of N p] unfolding length_upt by arith
  have "length (concat (map ?pair [Suc ?k ..< Suc N])) = 2 * length [Suc ?k ..< Suc N]"
    by (rule length_concat_const) simp
  then have len: "length ?Y = 2 * (N mod p)" unfolding Y n .
  have "drop (length (conv_act_pool_sequence fl cp A PL P N) - 2 * (N mod p))
          (conv_act_pool_sequence fl cp A PL P N)
        = drop (length (?X @ ?Y) - length ?Y) (?X @ ?Y)"
    by (simp only: split len)
  also have "\<dots> = ?Y" by simp
  also note Y
  finally show ?thesis by (simp only: r)
qed

lemma fe_activation_single:
  assumes "fe_activation fw self st = Inr st'" and "activation_type self \<in> set ACTIVATIONS"
  shows "\<exists>A. is_activation A \<and> fe_activation_layers self = [A]"
  using assms
  by (auto simp: fe_activation_def fe_activation_layers_def ACTIVATIONS_def dict_get_def
           split: option.splits if_splits)

lemma pooling_single:
  assumes "pooling_type self \<in> set POOLINGS"
  shows "\<exists>PL. is_pooling PL \<and> pooling_layers self pp = [PL]"
  using assms by (auto simp: pooling_layers_def POOLINGS_def)

lemma fe_body_activation:
  assumes "fe_body fw self fl cp pp idx st = Inr st'"
    and "activation_type self \<in> set ACTIVATIONS"
  shows "\<exists>A. is_activation A \<and> fe_activation_layers self = [A]"
proof -
  from assms(1) obtain st2 st3 where "fe_activation fw self st2 = Inr st3"
    by (auto simp: fe_body_def split: sum.splits)
  then show ?thesis using assms(2) by (rule fe_activation_single)
qed

lemma make_feature_extractor_loop:
  assumes "ConvClassifier_make_feature_extractor fw self g = Inr (fe, g')"
  obtains C H W cp pp st where "in_size self = [C, H, W]"
    and "read_conv_params (conv_params self) = Inr cp"
    and "read_pooling_params (pooling_params self) = Inr pp"
    and "fe_loop fw self (C # channels self) cp pp [Suc 0 ..< Suc (length (channels self))]
          \<lparr>layers = [], ambient = g, in_h = H, in_w = W, pools_num = 0\<rparr> = Inr st"
    and "fe_finish self st = Inr (fe, g')"
proof -
  from assms obtain C H W where s: "in_size self = [C, H, W]"
    by (auto simp: ConvClassifier_make_feature_extractor_def split: list.splits)
  from assms s obtain cp where cp: "read_conv_params (conv_params self) = Inr cp"
    by (auto simp: ConvClassifier_make_feature_extractor_def Let_def split: sum.splits)
  from assms s cp obtain pp where pp: "read_pooling_params (pooling_params self) = Inr pp"
    by (auto simp: ConvClassifier_make_feature_extractor_def Let_def split: sum.splits)
  from assms s cp pp obtain st where
    "fe_loop fw self (C # channels self) cp pp [Suc 0 ..< Suc (length (channels self))]
          \<lparr>layers = [], ambient = g, in_h = H, in_w = W, pools_num = 0\<rparr> = Inr st"
    and "fe_finish self st = Inr (fe, g')"
    by (auto simp: ConvClassifier_make_feature_extractor_def Let_def simp del: upt_Suc
             split: sum.splits)
  with s cp pp show thesis by (rule that)
qed

lemma make_feature_extractor_activation:
  assumes "ConvClassifier_make_feature_extractor fw self g = Inr (fe, g')"
    and "activation_type self \<in> set ACTIVATIONS"
  shows "\<exists>A. is_activation A \<and> fe_activation_layers self = [A]"
proof -
  from assms(1) obtain C H W cp pp st where
    l: "fe_loop fw self (C # channels self) cp pp [Suc 0 ..< Suc (length (channels self))]
          \<lparr>layers = [], ambient = g, in_h = H, in_w = W, pools_num = 0\<rparr> = Inr st"
    and f: "fe_finish self st = Inr (fe, g')"
    by (rule make_feature_extractor_loop)
  from f have "channels self \<noteq> []"
    by (auto simp: fe_finish_def py_index_last split: if_splits)
  then have "[Suc 0 ..< Suc (length (channels self))]
      = Suc 0 # [Suc (Suc 0) ..< Suc (length (channels self))]"
    by (cases "channels self") (simp_all add: upt_rec)
  with l have "fe_loop fw self (C # channels self) cp pp
      (Suc 0 # [Suc (Suc 0) ..< Suc (length (channels self))])
      \<lparr>layers = [], ambient = g, in_h = H, in_w = W, pools_num = 0\<rparr> = Inr st"
    by (simp only:)
  then obtain st1 where "fe_body fw self (C # channels self) cp pp (Suc 0)
      \<lparr>layers = [], ambient = g, in_h = H, in_w = W, pools_num = 0\<rparr> = Inr st1"
    by (rule fe_loop_Cons_Inr)
  then show ?thesis using assms(2) by (rule fe_body_activation)
qed

lemma fe_group_sequence:
  assumes "fe_activation_layers self = [A]" and "pooling_layers self pp = [PL]"
  shows "concat (map (fe_group self fl cp pp) [Suc 0 ..< Suc N]) =
           conv_act_pool_sequence fl cp A PL (pool_every self) N"
proof -
  have "fe_group self fl cp pp = conv_act_pool_group fl cp A PL (pool_every self)"
    by (rule ext) (simp add: fe_group_def conv_act_pool_group_def assms)
  then show ?thesis by (simp add: conv_act_pool_sequence_def del: upt_Suc)
qed

lemma sequence_abs:
  "conv_act_pool_sequence fl cp A PL \<bar>P\<bar> N = conv_act_pool_sequence fl cp A PL P N"
proof -
  have "int i mod \<bar>P\<bar> = 0 \<longleftrightarrow> int i mod P = 0" for i
    by (simp add: dvd_eq_mod_eq_0[symmetric])
  then have "conv_act_pool_group fl cp A PL \<bar>P\<bar> = conv_act_pool_group fl cp A PL P"
    by (intro ext) (simp add: conv_act_pool_group_def)
  then show ?thesis by (simp add: conv_act_pool_sequence_def del: upt_Suc)
qed

subsection \<open>The layers of the feature extractor\<close>

text \<open>
  Claim C2, as amended. For every ConvClassifier constructed successfully with
  \<open>N = len(channels)\<close> and \<open>P = pool_every\<close>, the feature extractor is, in order, one
  group per convolution: the convolution, whose channel counts chain from \<open>in_size[0]\<close>
  through \<open>channels\<close>, then one activation, then one pooling layer when the index \<open>i\<close> of
  the convolution satisfies \<open>i % P == 0\<close> (\<open>conv_act_pool_sequence\<close>). \<open>P\<close> is not 0, and
  the test holds at the multiples of \<open>|P|\<close>: the extractor holds exactly \<open>N\<close>
  convolutions, \<open>N\<close> activations and \<open>floor(N / |P|)\<close> pooling layers, and its last
  \<open>2 * (N mod |P|)\<close> layers are the last \<open>N mod |P|\<close> convolution-activation pairs, with
  no pooling layer among or after them. For a positive \<open>P\<close> these are \<open>floor(N / P)\<close>
  and \<open>N mod P\<close>.
\<close>

theorem feature_extractor_structure:
  assumes "ConvClassifier_init fw a g = Inr (m, g')"
  shows "\<exists>C H W cp A PL.
           in_size a = [C, H, W] \<and>
           read_conv_params (conv_params a) = Inr cp \<and>
           is_activation A \<and> is_pooling PL \<and> pool_every a \<noteq> 0 \<and>
           modules (feature_extractor m) =
             conv_act_pool_sequence (C # channels a) cp A PL (pool_every a)
               (length (channels a)) \<and>
           length (filter is_conv (modules (feature_extractor m))) = length (channels a) \<and>
           length (filter is_activation (modules (feature_extractor m))) =
             length (channels a) \<and>
           length (filter is_pooling (modules (feature_extractor m))) =
             nat (int (length (channels a)) div \<bar>pool_every a\<bar>) \<and>
           drop (length (modules (feature_extractor m))
                 - 2 * nat (int (length (channels a)) mod \<bar>pool_every a\<bar>))
             (modules (feature_extractor m)) =
             concat (map (\<lambda>i. [Conv2d ((C # channels a) ! (i - 1)) ((C # channels a) ! i)
                                   (kernel cp) (stride cp) (padding cp) (dilation cp) True, A])
                       [Suc (length (channels a)
                             - nat (int (length (channels a)) mod \<bar>pool_every a\<bar>))
                        ..< Suc (length (channels a))])"
proof -
  from assms obtain fe g1 cl where
    act: "activation_type a \<in> set ACTIVATIONS" and pool: "pooling_type a \<in> set POOLINGS"
    and mk: "ConvClassifier_make_feature_extractor fw a g = Inr (fe, g1)"
    and m: "m = \<lparr>args = a, self_pools_num = fe_pools_num fe, features_num = fe_features_num fe,
              feature_extractor = fe_seq fe, classifier = cl\<rparr>"
    unfolding ConvClassifier_init_def by (rule init_with_Inr)
  from mk obtain C H W cp pp where s: "in_size a = [C, H, W]"
    and cp: "read_conv_params (conv_params a) = Inr cp"
    and L: "modules (fe_seq fe) =
           concat (map (fe_group a (C # channels a) cp pp) [1 ..< Suc (length (channels a))])"
    and P0: "pool_every a \<noteq> 0"
    by (rule make_feature_extractor_Inr)
  from make_feature_extractor_activation[OF mk act] obtain A where
    A: "is_activation A" "fe_activation_layers a = [A]" by blast
  from pooling_single[OF pool] obtain PL where
    PL: "is_pooling PL" "pooling_layers a pp = [PL]" by blast
  let ?S = "conv_act_pool_sequence (C # channels a) cp A PL (pool_every a) (length (channels a))"
  let ?S' = "conv_act_pool_sequence (C # channels a) cp A PL \<bar>pool_every a\<bar>
      (length (channels a))"
  have abs: "?S' = ?S" by (rule sequence_abs)
  from P0 have pos: "0 < \<bar>pool_every a\<bar>" by simp
  have eq: "modules (feature_extractor m) = ?S"
    using L fe_group_sequence[OF A(2) PL(2)] by (simp add: m del: upt_Suc)
  have c1: "length (filter is_conv ?S) = length (channels a)"
    using A(1) PL(1) by (rule sequence_count_conv)
  have c2: "length (filter is_activation ?S) = length (channels a)"
    using A(1) PL(1) by (rule sequence_count_activation)
  have "length (filter is_pooling ?S') = nat (int (length (channels a)) div \<bar>pool_every a\<bar>)"
    using A(1) PL(1) pos by (rule sequence_count_pooling)
  then have c3: "length (filter is_pooling ?S) =
      nat (int (length (channels a)) div \<bar>pool_every a\<bar>)"
    unfolding abs .
  have c4: "drop (length ?S - 2 * nat (int (length (channels a)) mod \<bar>pool_every a\<bar>)) ?S =
        concat (map (\<lambda>i. [Conv2d ((C # channels a) ! (i - 1)) ((C # channels a) ! i)
                              (kernel cp) (stride cp) (padding cp) (dilation cp) True, A])
                  [Suc (length (channels a)
                        - nat (int (length (channels a)) mod \<bar>pool_every a\<bar>))
                   ..< Suc (length (channels a))])"
    using sequence_trailing[OF pos, where fl = "C # channels a" and cp = cp and A = A
      and PL = PL and N = "length (channels a)"]
    unfolding abs .
  show ?thesis
    apply (rule exI[of _ C], rule exI[of _ H], rule exI[of _ W], rule exI[of _ cp],
           rule exI[of _ A], rule exI[of _ PL])
    unfolding eq
    apply (intro conjI)
             apply (rule s)
            apply (rule cp)
           apply (rule A(1))
          apply (rule PL(1))
         apply (rule P0)
        apply (rule refl)
       apply (rule c1)
      apply (rule c2)
     apply (rule c3)
    apply (rule c4)
    done
qed

lemma negative_pool_built:
  "ConvClassifier_init accept_all negative_pool_args () = Inr (negative_pool_classifier, ())"
  by code_simp

theorem feature_extractor_structure_witness:
  "ConvClassifier_init accept_all example_args () = Inr (example_classifier, ()) \<and>
   ConvClassifier_init accept_all negative_pool_args () = Inr (negative_pool_classifier, ()) \<and>
   length (filter is_pooling (modules (feature_extractor example_classifier))) =
     nat (int (length (channels example_args)) div \<bar>pool_every example_args\<bar>) \<and>
   length (filter is_conv (modules (feature_extractor example_classifier))) =
     length (channels example_args) \<and>
   length (filter is_pooling (modules (feature_extractor negative_pool_classifier))) =
     nat (int (length (channels negative_pool_args)) div \<bar>pool_every negative_pool_args\<bar>)"
  using feature_extractor_structure [OF example_classifier_built]
    feature_extractor_structure [OF negative_pool_built]
    example_classifier_built negative_pool_built
  by blast

text \<open>
  The claim as written, with \<open>floor(N / P)\<close> pooling layers, fails for a negative
  \<open>pool_every\<close>: with two convolutions and \<open>pool_every = -1\<close> the test \<open>i % P == 0\<close>
  holds at both, so the extractor holds two pooling layers, where \<open>floor(2 / -1) = -2\<close>.
\<close>

theorem pooling_count_counterexample:
  "ConvClassifier_init accept_all negative_pool_args () = Inr (negative_pool_classifier, ()) \<and>
   length (filter is_pooling (modules (feature_extractor negative_pool_classifier))) = 2 \<and>
   int (length (channels negative_pool_args)) div pool_every negative_pool_args = - 2"
  by code_simp

subsection \<open>The size update\<close>

lemma trunc_quot_floor:
  assumes "b \<noteq> 0"
  shows "trunc_quot a b =
           (if b dvd a \<or> (0 \<le> a \<longleftrightarrow> 0 < b) then a div b else a div b + 1)"
proof (cases "b dvd a")
  case True
  then obtain k where k: "a = b * k" by (auto simp: dvd_def)
  have d: "\<bar>b * k\<bar> div \<bar>b\<bar> = \<bar>k\<bar>" using assms by (simp add: abs_mult)
  have "sgn (b * k) * sgn b * \<bar>k\<bar> = k"
    using assms by (auto simp: sgn_if zero_less_mult_iff mult_less_0_iff)
  moreover have "(b * k) div b = k" using assms by simp
  ultimately show ?thesis using True unfolding k trunc_quot_def d by simp
next
  case False
  then have m: "a mod b \<noteq> 0" by (simp add: dvd_eq_mod_eq_0)
  from False have a0: "a \<noteq> 0" by auto
  consider "0 < a" "0 < b" | "a < 0" "b < 0" | "a < 0" "0 < b" | "0 < a" "b < 0"
    using assms a0 by linarith
  then show ?thesis
  proof cases
    case 1
    then show ?thesis by (simp add: trunc_quot_def)
  next
    case 2
    then have "\<bar>a\<bar> div \<bar>b\<bar> = (- a) div (- b)" by simp
    with 2 show ?thesis by (simp add: trunc_quot_def)
  next
    case 3
    then have "\<bar>a\<bar> div \<bar>b\<bar> = (- a) div b" by simp
    also have "\<dots> = - (a div b) - 1" using assms m by (simp add: zdiv_zminus1_eq_if)
    finally show ?thesis using 3 False by (simp add: trunc_quot_def)
  next
    case 4
    have m': "a mod (- b) \<noteq> 0" using False by (simp add: dvd_eq_mod_eq_0[symmetric])
    from 4 have "\<bar>a\<bar> div \<bar>b\<bar> = a div (- b)" by simp
    moreover have "a div b = - (a div (- b)) - 1"
      using zdiv_zminus1_eq_if[of "- b" a] assms m' by simp
    ultimately show ?thesis using 4 False by (simp add: trunc_quot_def)
  qed
qed

lemma read_conv_params_Inr:
  assumes "read_conv_params d = Inr cp"
  shows "map_of d ''kernel_size'' = Some (kernel cp)"
    and "stride cp = (case map_of d ''stride'' of None \<Rightarrow> 1 | Some v \<Rightarrow> v)"
    and "padding cp = (case map_of d ''padding'' of None \<Rightarrow> 0 | Some v \<Rightarrow> v)"
    and "dilation cp = (case map_of d ''dilation'' of None \<Rightarrow> 1 | Some v \<Rightarrow> v)"
  using assms
  by (auto simp: read_conv_params_def dict_get_def dict_get_default_def split: option.splits)

lemma read_pooling_params_Inr:
  assumes "read_pooling_params d = Inr pp"
  shows "map_of d ''kernel_size'' = Some (kernel pp)"
    and "stride pp = (case map_of d ''stride'' of None \<Rightarrow> kernel pp | Some v \<Rightarrow> v)"
    and "padding pp = (case map_of d ''padding'' of None \<Rightarrow> 0 | Some v \<Rightarrow> v)"
    and "dilation pp = (case map_of d ''dilation'' of None \<Rightarrow> 1 | Some v \<Rightarrow> v)"
  using assms
  by (auto simp: read_pooling_params_def dict_get_def dict_get_default_def split: option.splits)

lemma size_update_exact:
  assumes "stride p \<noteq> 0" and "\<bar>size_numerator p sz\<bar> < 2 ^ 53"
  shows "size_defined p sz"
    and "size_update p sz = trunc_quot (size_numerator p sz) (stride p) + 1"
  using int_truediv_exact[OF assms]
  by (simp_all add: int_truediv_cases size_defined_def size_update_def split: if_splits)

lemma size_update_floor:
  assumes "stride p \<noteq> 0" and "\<bar>size_numerator p sz\<bar> < 2 ^ 53"
  shows "size_update p sz =
           (if stride p dvd size_numerator p sz \<or> (0 \<le> size_numerator p sz \<longleftrightarrow> 0 < stride p)
            then floor_out_size p sz else floor_out_size p sz + 1)"
  unfolding size_update_exact(2)[OF assms] trunc_quot_floor[OF assms(1)]
  by (simp add: floor_out_size_def size_numerator_def)

text \<open>
  Claim C3, as amended. In one iteration of the loop the tracked height and width are
  each updated after the convolution, and again after the pooling layer when one is
  appended, to \<open>int(x / stride) + 1\<close> with the numerator
  \<open>x = size + 2*padding - dilation*(kernel - 1) - 1\<close> (\<open>size_update\<close>): the quotient is
  the double that Python's division returns, cut toward zero. Stride, padding and
  dilation default to 1, 0, 1 for the convolution and to the pooling kernel size, 0, 1
  for the pooling. For \<open>|x| < 2^53\<close> the update returns whenever the stride is not 0, and
  its value is the exact quotient rounded toward zero, plus one: that of the formula with
  \<open>floor\<close> when the stride divides \<open>x\<close> or \<open>x\<close> is non-negative with a positive stride
  (or negative with a negative stride), and one more otherwise.
\<close>

theorem size_update_truncates:
  assumes "read_conv_params (conv_params self) = Inr cp"
    and "read_pooling_params (pooling_params self) = Inr pp"
    and "fe_body fw self fl cp pp idx st = Inr st'" and "1 \<le> idx"
  shows "stride cp = (case map_of (conv_params self) ''stride'' of None \<Rightarrow> 1 | Some v \<Rightarrow> v) \<and>
         padding cp = (case map_of (conv_params self) ''padding'' of None \<Rightarrow> 0 | Some v \<Rightarrow> v) \<and>
         dilation cp = (case map_of (conv_params self) ''dilation'' of None \<Rightarrow> 1 | Some v \<Rightarrow> v) \<and>
         stride pp =
           (case map_of (pooling_params self) ''stride'' of None \<Rightarrow> kernel pp | Some v \<Rightarrow> v) \<and>
         padding pp =
           (case map_of (pooling_params self) ''padding'' of None \<Rightarrow> 0 | Some v \<Rightarrow> v) \<and>
         dilation pp =
           (case map_of (pooling_params self) ''dilation'' of None \<Rightarrow> 1 | Some v \<Rightarrow> v) \<and>
         in_h st' =
           (if int idx mod pool_every self = 0 then size_update pp (size_update cp (in_h st))
            else size_update cp (in_h st)) \<and>
         in_w st' =
           (if int idx mod pool_every self = 0 then size_update pp (size_update cp (in_w st))
            else size_update cp (in_w st)) \<and>
         out_size cp (in_h st) = Inr (size_update cp (in_h st)) \<and>
         out_size cp (in_w st) = Inr (size_update cp (in_w st)) \<and>
         (\<forall>p sz. stride p \<noteq> 0 \<and> \<bar>size_numerator p sz\<bar> < 2 ^ 53 \<longrightarrow>
            out_size p sz = Inr (size_update p sz) \<and>
            size_update p sz = trunc_quot (size_numerator p sz) (stride p) + 1 \<and>
            size_update p sz =
              (if stride p dvd size_numerator p sz \<or>
                  (0 \<le> size_numerator p sz \<longleftrightarrow> 0 < stride p)
               then floor_out_size p sz else floor_out_size p sz + 1))"
proof -
  note c = read_conv_params_Inr[OF assms(1)] and p = read_pooling_params_Inr[OF assms(2)]
  note b = fe_body_Inr[OF assms(3,4)]
  from assms(3) obtain l st1 st2 where 1: "append_new fw l st = Inr st1"
    and 2: "update_sizes cp st1 = Inr st2"
    by (auto simp: fe_body_def split: sum.splits)
  from 1 have "in_h st1 = in_h st" and "in_w st1 = in_w st"
    by (auto simp: append_new_Inr_iff)
  with 2 have o: "out_size cp (in_h st) = Inr (size_update cp (in_h st))"
    "out_size cp (in_w st) = Inr (size_update cp (in_w st))"
    by (simp_all add: update_sizes_Inr_iff out_size_Inr_iff)
  have g: "\<forall>p sz. stride p \<noteq> 0 \<and> \<bar>size_numerator p sz\<bar> < 2 ^ 53 \<longrightarrow>
            out_size p sz = Inr (size_update p sz) \<and>
            size_update p sz = trunc_quot (size_numerator p sz) (stride p) + 1 \<and>
            size_update p sz =
              (if stride p dvd size_numerator p sz \<or>
                  (0 \<le> size_numerator p sz \<longleftrightarrow> 0 < stride p)
               then floor_out_size p sz else floor_out_size p sz + 1)"
  proof (intro allI impI, elim conjE)
    fix p :: size_params and sz
    assume h: "stride p \<noteq> 0" "\<bar>size_numerator p sz\<bar> < 2 ^ 53"
    from size_update_exact[OF h] size_update_floor[OF h]
    show "out_size p sz = Inr (size_update p sz) \<and>
            size_update p sz = trunc_quot (size_numerator p sz) (stride p) + 1 \<and>
            size_update p sz =
              (if stride p dvd size_numerator p sz \<or>
                  (0 \<le> size_numerator p sz \<longleftrightarrow> 0 < stride p)
               then floor_out_size p sz else floor_out_size p sz + 1)"
      by (simp add: out_size_Inr_iff)
  qed
  from c(2,3,4) p(2,3,4) b(2,3) o g show ?thesis unfolding size_step_def by (intro conjI)
qed

lemma small_input_conv: "read_conv_params (conv_params small_input_args)
    = Inr \<lparr>kernel = 3, stride = 3, padding = 0, dilation = 1\<rparr>"
  by code_simp

lemma small_input_pool: "read_pooling_params (pooling_params small_input_args)
    = Inr \<lparr>kernel = 2, stride = 2, padding = 0, dilation = 1\<rparr>"
  by code_simp

lemma small_input_body:
  "fe_body accept_all small_input_args [3, 8]
     \<lparr>kernel = 3, stride = 3, padding = 0, dilation = 1\<rparr>
     \<lparr>kernel = 2, stride = 2, padding = 0, dilation = 1\<rparr> 1
     \<lparr>layers = [], ambient = (), in_h = 1, in_w = 1, pools_num = 0\<rparr>
   = Inr \<lparr>layers = [Conv2d 3 8 3 3 0 1 True, ReLU], ambient = (), in_h = 1, in_w = 1,
          pools_num = 0\<rparr>"
  by code_simp

lemma small_input_numerator:
  "stride \<lparr>kernel = 3, stride = 3, padding = 0, dilation = 1\<rparr> \<noteq> 0"
  "\<bar>size_numerator \<lparr>kernel = 3, stride = 3, padding = 0, dilation = 1\<rparr> 1\<bar> < 2 ^ 53"
  "floor_out_size \<lparr>kernel = 3, stride = 3, padding = 0, dilation = 1\<rparr> 1 = 0"
  "trunc_quot (size_numerator \<lparr>kernel = 3, stride = 3, padding = 0, dilation = 1\<rparr> 1)
     (stride \<lparr>kernel = 3, stride = 3, padding = 0, dilation = 1\<rparr>) = 0"
  by (simp_all add: size_numerator_def floor_out_size_def trunc_quot_def)

theorem size_update_truncates_witness:
  "read_conv_params (conv_params small_input_args)
     = Inr \<lparr>kernel = 3, stride = 3, padding = 0, dilation = 1\<rparr> \<and>
   read_pooling_params (pooling_params small_input_args)
     = Inr \<lparr>kernel = 2, stride = 2, padding = 0, dilation = 1\<rparr> \<and>
   fe_body accept_all small_input_args [3, 8]
     \<lparr>kernel = 3, stride = 3, padding = 0, dilation = 1\<rparr>
     \<lparr>kernel = 2, stride = 2, padding = 0, dilation = 1\<rparr> 1
     \<lparr>layers = [], ambient = (), in_h = 1, in_w = 1, pools_num = 0\<rparr>
   = Inr \<lparr>layers = [Conv2d 3 8 3 3 0 1 True, ReLU], ambient = (), in_h = 1, in_w = 1,
          pools_num = 0\<rparr> \<and>
   (1::nat) \<le> 1 \<and>
   stride \<lparr>kernel = 3, stride = 3, padding = 0, dilation = 1\<rparr> \<noteq> 0 \<and>
   \<bar>size_numerator \<lparr>kernel = 3, stride = 3, padding = 0, dilation = 1\<rparr> 1\<bar> < 2 ^ 53 \<and>
   out_size \<lparr>kernel = 3, stride = 3, padding = 0, dilation = 1\<rparr> 1 = Inr 1 \<and>
   size_update \<lparr>kernel = 3, stride = 3, padding = 0, dilation = 1\<rparr> 1 =
     floor_out_size \<lparr>kernel = 3, stride = 3, padding = 0, dilation = 1\<rparr> 1 + 1"
proof -
  let ?p = "\<lparr>kernel = 3, stride = 3, padding = 0, dilation = 1\<rparr>"
  from size_update_truncates [OF small_input_conv small_input_pool small_input_body]
  have "stride ?p \<noteq> 0 \<and> \<bar>size_numerator ?p 1\<bar> < 2 ^ 53 \<longrightarrow>
      out_size ?p 1 = Inr (size_update ?p 1) \<and>
      size_update ?p 1 = trunc_quot (size_numerator ?p 1) (stride ?p) + 1 \<and>
      size_update ?p 1 =
        (if stride ?p dvd size_numerator ?p 1 \<or> (0 \<le> size_numerator ?p 1 \<longleftrightarrow> 0 < stride ?p)
         then floor_out_size ?p 1 else floor_out_size ?p 1 + 1)"
    by blast
  with small_input_numerator(1,2)
  have "out_size ?p 1 = Inr (size_update ?p 1)"
    and "size_update ?p 1 = trunc_quot (size_numerator ?p 1) (stride ?p) + 1"
    by blast+
  with small_input_numerator small_input_conv small_input_pool small_input_body
  show ?thesis by simp
qed

text \<open>
  The quotient is a double: with a numerator of \<open>3 * 2^53 - 1\<close> and a stride of \<open>2^53\<close> it
  is rounded to 3 and the size becomes 4, where the exact quotient cut toward zero gives
  3; the numerators \<open>2^53 + 1\<close> and \<open>2^53 + 3\<close> lie halfway between two doubles and go
  to \<open>2^53\<close> and \<open>2^53 + 4\<close>; and a numerator of \<open>10^309\<close> has no double for its
  quotient by 1.
\<close>

lemma size_update_rounds:
  "out_size \<lparr>kernel = 1, stride = 2 ^ 53, padding = 0, dilation = 1\<rparr> (3 * 2 ^ 53) = Inr 4"
  "trunc_quot (size_numerator \<lparr>kernel = 1, stride = 2 ^ 53, padding = 0, dilation = 1\<rparr>
     (3 * 2 ^ 53)) (2 ^ 53) + 1 = 3"
  "out_size \<lparr>kernel = 1, stride = 1, padding = 0, dilation = 1\<rparr> (2 ^ 53 + 2)
     = Inr (2 ^ 53 + 1)"
  "out_size \<lparr>kernel = 1, stride = 1, padding = 0, dilation = 1\<rparr> (2 ^ 53 + 4)
     = Inr (2 ^ 53 + 5)"
  "out_size \<lparr>kernel = 1, stride = 1, padding = 0, dilation = 1\<rparr> (10 ^ 309 + 1)
     = Inl OverflowError"
  by code_simp+

text \<open>
  The claim as written, with \<open>floor\<close>, fails on a 1x1 input under a 3x3 convolution of
  stride 3: the code keeps the height 1 where the formula gives 0, and stores 8 features
  where it would give none.
\<close>

theorem size_update_floor_counterexample:
  "fe_body accept_all small_input_args [3, 8]
     \<lparr>kernel = 3, stride = 3, padding = 0, dilation = 1\<rparr>
     \<lparr>kernel = 2, stride = 2, padding = 0, dilation = 1\<rparr> 1
     \<lparr>layers = [], ambient = (), in_h = 1, in_w = 1, pools_num = 0\<rparr>
   = Inr \<lparr>layers = [Conv2d 3 8 3 3 0 1 True, ReLU], ambient = (), in_h = 1, in_w = 1,
          pools_num = 0\<rparr> \<and>
   floor_out_size \<lparr>kernel = 3, stride = 3, padding = 0, dilation = 1\<rparr> 1 = 0 \<and>
   ConvClassifier_make_feature_extractor accept_all small_input_args ()
   = Inr (\<lparr>fe_seq = Sequential [Conv2d 3 8 3 3 0 1 True, ReLU], fe_pools_num = 0,
            fe_features_num = 8\<rparr>, ())"
  by code_simp

subsection \<open>The kernel size is required\<close>

text \<open>
  Claim C10. When the arguments pass the checks of \<^verbatim>\<open>__init__\<close> and \<open>in_size\<close> has
  three entries, but \<open>conv_params\<close> or \<open>pooling_params\<close> has no \<open>kernel_size\<close>,
  construction raises KeyError; it does so whatever the framework would answer, so no
  layer constructor has been called. With a \<open>kernel_size\<close>, reading the dictionaries
  succeeds and stride, padding and dilation take their defaults when absent.
\<close>

theorem kernel_size_required:
  assumes "channels a \<noteq> []" and "hidden_dims a \<noteq> []"
    and "activation_type a \<in> set ACTIVATIONS" and "pooling_type a \<in> set POOLINGS"
    and "length (in_size a) = 3"
    and "map_of (conv_params a) ''kernel_size'' = None \<or>
         map_of (pooling_params a) ''kernel_size'' = None"
  shows "ConvClassifier_init fw a g = Inl KeyError \<and>
         ConvClassifier_init (\<lambda>l g. None) a g = Inl KeyError \<and>
         (\<forall>d k. map_of d ''kernel_size'' = Some k \<longrightarrow>
            read_conv_params d =
              Inr \<lparr>kernel = k,
                   stride = (case map_of d ''stride'' of None \<Rightarrow> 1 | Some v \<Rightarrow> v),
                   padding = (case map_of d ''padding'' of None \<Rightarrow> 0 | Some v \<Rightarrow> v),
                   dilation = (case map_of d ''dilation'' of None \<Rightarrow> 1 | Some v \<Rightarrow> v)\<rparr> \<and>
            read_pooling_params d =
              Inr \<lparr>kernel = k,
                   stride = (case map_of d ''stride'' of None \<Rightarrow> k | Some v \<Rightarrow> v),
                   padding = (case map_of d ''padding'' of None \<Rightarrow> 0 | Some v \<Rightarrow> v),
                   dilation = (case map_of d ''dilation'' of None \<Rightarrow> 1 | Some v \<Rightarrow> v)\<rparr>)"
proof -
  from assms(5) obtain C H W where s: "in_size a = [C, H, W]"
    by (auto simp: numeral_3_eq_3 length_Suc_conv)
  have mk: "ConvClassifier_make_feature_extractor fw' a g = Inl KeyError" for fw'
  proof (cases "map_of (conv_params a) ''kernel_size''")
    case None
    then have "read_conv_params (conv_params a) = Inl KeyError"
      by (simp add: read_conv_params_def dict_get_def)
    then show ?thesis by (simp add: ConvClassifier_make_feature_extractor_def s)
  next
    case (Some k)
    then obtain cp where cp: "read_conv_params (conv_params a) = Inr cp"
      by (simp add: read_conv_params_def dict_get_def)
    from Some assms(6) have "map_of (pooling_params a) ''kernel_size'' = None" by simp
    then have "read_pooling_params (pooling_params a) = Inl KeyError"
      by (simp add: read_pooling_params_def dict_get_def)
    with cp show ?thesis by (simp add: ConvClassifier_make_feature_extractor_def s)
  qed
  have init: "ConvClassifier_init fw' a g = Inl KeyError" for fw'
    using assms(1-4) mk[of fw']
    by (simp add: ConvClassifier_init_def ConvClassifier_init_with_def)
  have rd: "\<forall>d k. map_of d ''kernel_size'' = Some k \<longrightarrow>
            read_conv_params d =
              Inr \<lparr>kernel = k,
                   stride = (case map_of d ''stride'' of None \<Rightarrow> 1 | Some v \<Rightarrow> v),
                   padding = (case map_of d ''padding'' of None \<Rightarrow> 0 | Some v \<Rightarrow> v),
                   dilation = (case map_of d ''dilation'' of None \<Rightarrow> 1 | Some v \<Rightarrow> v)\<rparr> \<and>
            read_pooling_params d =
              Inr \<lparr>kernel = k,
                   stride = (case map_of d ''stride'' of None \<Rightarrow> k | Some v \<Rightarrow> v),
                   padding = (case map_of d ''padding'' of None \<Rightarrow> 0 | Some v \<Rightarrow> v),
                   dilation = (case map_of d ''dilation'' of None \<Rightarrow> 1 | Some v \<Rightarrow> v)\<rparr>"
    by (simp add: read_conv_params_def read_pooling_params_def dict_get_def dict_get_default_def)
  from init[of fw] init[of "\<lambda>l g. None"] rd show ?thesis by (intro conjI)
qed

theorem kernel_size_required_witness:
  "channels (example_args\<lparr>conv_params := []\<rparr>) \<noteq> [] \<and>
   hidden_dims (example_args\<lparr>conv_params := []\<rparr>) \<noteq> [] \<and>
   activation_type (example_args\<lparr>conv_params := []\<rparr>) \<in> set ACTIVATIONS \<and>
   pooling_type (example_args\<lparr>conv_params := []\<rparr>) \<in> set POOLINGS \<and>
   length (in_size (example_args\<lparr>conv_params := []\<rparr>)) = 3 \<and>
   map_of (conv_params (example_args\<lparr>conv_params := []\<rparr>)) ''kernel_size'' = None \<and>
   ConvClassifier_init accept_all (example_args\<lparr>conv_params := []\<rparr>) () = Inl KeyError \<and>
   read_pooling_params [(''kernel_size'', 2)]
     = Inr \<lparr>kernel = 2, stride = 2, padding = 0, dilation = 1\<rparr>"
proof -
  have h: "channels (example_args\<lparr>conv_params := []\<rparr>) \<noteq> []"
    "hidden_dims (example_args\<lparr>conv_params := []\<rparr>) \<noteq> []"
    "activation_type (example_args\<lparr>conv_params := []\<rparr>) \<in> set ACTIVATIONS"
    "pooling_type (example_args\<lparr>conv_params := []\<rparr>) \<in> set POOLINGS"
    "length (in_size (example_args\<lparr>conv_params := []\<rparr>)) = 3"
    "map_of (conv_params (example_args\<lparr>conv_params := []\<rparr>)) ''kernel_size'' = None"
    by (simp_all add: example_args_def ACTIVATIONS_def POOLINGS_def)
  from h(6) have h6: "map_of (conv_params (example_args\<lparr>conv_params := []\<rparr>)) ''kernel_size'' = None \<or>
      map_of (pooling_params (example_args\<lparr>conv_params := []\<rparr>)) ''kernel_size'' = None" ..
  from kernel_size_required [OF h(1-5) h6, of accept_all "()"] h show ?thesis by simp
qed

section \<open>ConvClassifier: the classifier part\<close>

lemma append_activation_Inr:
  assumes "append_activation fw t ps st = Inr st'"
  shows "layers st' = layers st @ activation_layers t ps"
    and "t \<in> set ACTIVATIONS \<Longrightarrow> \<exists>A. is_activation A \<and> activation_layers t ps = [A]"
  using assms
  by (auto simp: append_activation_def activation_layers_def dict_get_def append_new_Inr_iff
        ACTIVATIONS_def split: if_splits option.splits)

lemma cls_loop_Cons_Inr:
  assumes "cls_loop fw self (h # hs) d st = Inr r"
  obtains st1 st2 where "append_new fw (Linear d h) st = Inr st1"
    and "append_activation fw (activation_type self) (activation_params self) st1 = Inr st2"
    and "cls_loop fw self hs h st2 = Inr r"
  using assms by (auto split: sum.splits)

lemma cls_loop_Inr:
  assumes "cls_loop fw self hs d st = Inr (d', st')"
    and "activation_layers (activation_type self) (activation_params self) = [A]"
  shows "layers st' @ [Linear d' out] = layers st @ fc_act_sequence d hs A out"
  using assms(1)
proof (induction hs arbitrary: d st)
  case Nil
  then show ?case by simp
next
  case (Cons h hs)
  from Cons.prems obtain st1 st2 where 1: "append_new fw (Linear d h) st = Inr st1"
    and 2: "append_activation fw (activation_type self) (activation_params self) st1 = Inr st2"
    and 3: "cls_loop fw self hs h st2 = Inr (d', st')"
    by (rule cls_loop_Cons_Inr)
  from 1 have "layers st1 = layers st @ [Linear d h]" by (auto simp: append_new_Inr_iff)
  moreover from append_activation_Inr(1)[OF 2] assms(2) have "layers st2 = layers st1 @ [A]"
    by simp
  ultimately show ?case using Cons.IH[OF 3] by simp
qed

lemma activation_not_linear: "is_activation A \<Longrightarrow> \<not> is_linear A"
  by (cases A) simp_all

lemma fc_act_sequence_linear:
  "is_activation A \<Longrightarrow>
     length (filter is_linear (fc_act_sequence n hs A out)) = Suc (length hs)"
  by (induction hs arbitrary: n) (simp_all add: activation_not_linear)

lemma fc_act_sequence_activation:
  "is_activation A \<Longrightarrow>
     length (filter is_activation (fc_act_sequence n hs A out)) = length hs"
  by (induction hs arbitrary: n) simp_all

lemma fc_act_sequence_last:
  "last (fc_act_sequence n hs A out) = Linear (last (n # hs)) out"
proof (induction hs arbitrary: n)
  case Nil
  show ?case by simp
next
  case (Cons h hs)
  have "fc_act_sequence h hs A out \<noteq> []" by (cases hs) simp_all
  with Cons[of h] show ?case by simp
qed

lemma make_classifier_Inr:
  assumes "make_classifier fw self n g = Inr (cl, g')"
    and "hidden_dims self \<noteq> []" and "activation_type self \<in> set ACTIVATIONS"
  shows "\<exists>A. is_activation A \<and>
           activation_layers (activation_type self) (activation_params self) = [A] \<and>
           modules cl = fc_act_sequence n (hidden_dims self) A (out_classes self)"
proof -
  from assms(1) obtain d st st1 where
    l: "cls_loop fw self (hidden_dims self) n \<lparr>layers = [], ambient = g\<rparr> = Inr (d, st)"
    and a: "append_new fw (Linear d (out_classes self)) st = Inr st1"
    and cl: "cl = Sequential (layers st1)"
    by (auto simp: make_classifier_def split: sum.splits prod.splits)
  from assms(2) obtain h hs where hs: "hidden_dims self = h # hs"
    by (cases "hidden_dims self") auto
  from l[unfolded hs] obtain st2 st3 where
    "append_new fw (Linear n h) \<lparr>layers = [], ambient = g\<rparr> = Inr st2"
    and aa: "append_activation fw (activation_type self) (activation_params self) st2 = Inr st3"
    by (rule cls_loop_Cons_Inr)
  from append_activation_Inr(2)[OF aa assms(3)] obtain A where
    A: "is_activation A" "activation_layers (activation_type self) (activation_params self) = [A]"
    by blast
  from a have "layers st1 = layers st @ [Linear d (out_classes self)]"
    by (auto simp: append_new_Inr_iff)
  with cls_loop_Inr[OF l A(2), of "out_classes self"] cl
  have "modules cl = fc_act_sequence n (hidden_dims self) A (out_classes self)" by simp
  with A show ?thesis by blast
qed

text \<open>
  Claim C6. For every ConvClassifier constructed successfully the classifier part is
  \<open>(FC -> ACT)*M -> FC\<close>: \<open>len(hidden_dims) + 1\<close> linear layers, the first taking
  \<^verbatim>\<open>_n_features()\<close> inputs, chained through \<open>hidden_dims\<close>, one activation after each
  hidden linear layer, and last the linear layer into \<open>out_classes\<close> with nothing after it.
\<close>

theorem classifier_structure:
  assumes "ConvClassifier_init fw a g = Inr (m, g')"
  shows "\<exists>A. is_activation A \<and>
           modules (classifier m) =
             fc_act_sequence (fst (n_features m g0)) (hidden_dims a) A (out_classes a) \<and>
           length (filter is_linear (modules (classifier m))) = length (hidden_dims a) + 1 \<and>
           length (filter is_activation (modules (classifier m))) = length (hidden_dims a) \<and>
           last (modules (classifier m)) = Linear (last (hidden_dims a)) (out_classes a)"
proof -
  from assms obtain fe g1 cl where hd: "hidden_dims a \<noteq> []"
    and act: "activation_type a \<in> set ACTIVATIONS"
    and "ConvClassifier_make_feature_extractor fw a g = Inr (fe, g1)"
    and mc: "make_classifier fw a (fe_features_num fe) g1 = Inr (cl, g')"
    and m: "m = \<lparr>args = a, self_pools_num = fe_pools_num fe, features_num = fe_features_num fe,
              feature_extractor = fe_seq fe, classifier = cl\<rparr>"
    unfolding ConvClassifier_init_def by (rule init_with_Inr)
  from make_classifier_Inr[OF mc hd act] obtain A where A: "is_activation A"
    and cl: "modules cl = fc_act_sequence (fe_features_num fe) (hidden_dims a) A (out_classes a)"
    by blast
  have n: "fst (n_features m g0) = fe_features_num fe" by (simp add: m n_features_def)
  have c: "modules (classifier m) =
      fc_act_sequence (fst (n_features m g0)) (hidden_dims a) A (out_classes a)"
    unfolding n using cl by (simp add: m)
  from hd have l: "last (fst (n_features m g0) # hidden_dims a) = last (hidden_dims a)" by simp
  have 1: "length (filter is_linear (modules (classifier m))) = length (hidden_dims a) + 1"
    unfolding c using A by (simp add: fc_act_sequence_linear)
  have 2: "length (filter is_activation (modules (classifier m))) = length (hidden_dims a)"
    unfolding c using A by (simp add: fc_act_sequence_activation)
  have 3: "last (modules (classifier m)) = Linear (last (hidden_dims a)) (out_classes a)"
    unfolding c fc_act_sequence_last l ..
  from A c 1 2 3 show ?thesis by blast
qed
theorem classifier_structure_witness:
  "ConvClassifier_init accept_all example_args () = Inr (example_classifier, ()) \<and>
   length (filter is_linear (modules (classifier example_classifier))) =
     length (hidden_dims example_args) + 1 \<and>
   length (filter is_activation (modules (classifier example_classifier))) =
     length (hidden_dims example_args) \<and>
   last (modules (classifier example_classifier)) =
     Linear (last (hidden_dims example_args)) (out_classes example_args)"
  using classifier_structure [OF example_classifier_built, of "()"] example_classifier_built
  by blast

section \<open>ConvClassifier: when construction completes\<close>

lemma append_new_total:
  assumes "\<forall>l g. fw l g \<noteq> None"
  shows "\<exists>st'. append_new fw l st = Inr st'"
proof -
  from assms have "fw l (ambient st) \<noteq> None" by blast
  then obtain g' where "fw l (ambient st) = Some g'" by blast
  then show ?thesis by (simp add: append_new_Inr_iff)
qed

lemma trunc_quot_abs_le: "\<bar>trunc_quot a b\<bar> \<le> \<bar>a\<bar>"
proof (cases "b = 0")
  case True
  then show ?thesis by (simp add: trunc_quot_def)
next
  case False
  have "\<bar>a\<bar> div \<bar>b\<bar> \<le> \<bar>a\<bar> div 1" by (rule zdiv_mono2) (use False in simp_all)
  moreover have "0 \<le> \<bar>a\<bar> div \<bar>b\<bar>" using False by (simp add: pos_imp_zdiv_nonneg_iff)
  ultimately show ?thesis by (simp add: trunc_quot_def abs_mult abs_sgn_eq)
qed

lemma size_update_bound:
  assumes "stride p \<noteq> 0" and "\<bar>sz\<bar> + shrink_bound p \<le> 2 ^ 53"
  shows "size_defined p sz" and "\<bar>size_update p sz\<bar> \<le> \<bar>sz\<bar> + shrink_bound p"
proof -
  have "\<bar>size_numerator p sz\<bar>
      \<le> \<bar>sz\<bar> + 2 * \<bar>padding p\<bar> + \<bar>dilation p * (kernel p - 1)\<bar> + 1"
    unfolding size_numerator_def by linarith
  then have n: "\<bar>size_numerator p sz\<bar> + 1 \<le> \<bar>sz\<bar> + shrink_bound p"
    by (simp add: shrink_bound_def)
  with assms(2) have lt: "\<bar>size_numerator p sz\<bar> < 2 ^ 53" by linarith
  note e = size_update_exact[OF assms(1) lt]
  show "size_defined p sz" by (rule e(1))
  have "\<bar>size_update p sz\<bar> \<le> \<bar>trunc_quot (size_numerator p sz) (stride p)\<bar> + 1"
    unfolding e(2) by linarith
  also have "\<dots> \<le> \<bar>size_numerator p sz\<bar> + 1" using trunc_quot_abs_le by simp
  also note n
  finally show "\<bar>size_update p sz\<bar> \<le> \<bar>sz\<bar> + shrink_bound p" .
qed

lemma shrink_bound_pos: "0 < shrink_bound p"
  by (simp add: shrink_bound_def)

lemma update_sizes_total:
  assumes "stride p \<noteq> 0"
    and "\<bar>in_h st\<bar> + shrink_bound p \<le> 2 ^ 53" and "\<bar>in_w st\<bar> + shrink_bound p \<le> 2 ^ 53"
  shows "\<exists>st'. update_sizes p st = Inr st' \<and>
           \<bar>in_h st'\<bar> \<le> \<bar>in_h st\<bar> + shrink_bound p \<and>
           \<bar>in_w st'\<bar> \<le> \<bar>in_w st\<bar> + shrink_bound p"
  using size_update_bound[OF assms(1,2)] size_update_bound[OF assms(1,3)]
  by (simp add: update_sizes_Inr_iff)

lemma fe_activation_total:
  assumes "\<forall>l g. fw l g \<noteq> None"
    and "activation_type self = ''lrelu'' \<longrightarrow>
         map_of (activation_params self) ''negative_slope'' \<noteq> None"
  shows "\<exists>st'. fe_activation fw self st = Inr st'"
  using assms(2) append_new_total[OF assms(1)]
  by (auto simp: fe_activation_def dict_get_def split: option.splits)

lemma fe_pooling_total:
  assumes "\<forall>l g. fw l g \<noteq> None" and "pool_every self \<noteq> 0"
    and "int idx mod pool_every self = 0 \<longrightarrow> stride pp \<noteq> 0"
    and "\<bar>in_h st\<bar> + shrink_bound pp \<le> 2 ^ 53" and "\<bar>in_w st\<bar> + shrink_bound pp \<le> 2 ^ 53"
  shows "\<exists>st'. fe_pooling fw self pp idx st = Inr st' \<and>
           \<bar>in_h st'\<bar> \<le> \<bar>in_h st\<bar> + shrink_bound pp \<and>
           \<bar>in_w st'\<bar> \<le> \<bar>in_w st\<bar> + shrink_bound pp"
proof (cases "int idx mod pool_every self = 0")
  case False
  with assms(2) shrink_bound_pos[of pp] show ?thesis by (simp add: fe_pooling_def)
next
  case True
  with assms(3) have s: "stride pp \<noteq> 0" by simp
  obtain st1 where 1: "(if pooling_type self = ''max'' then
                 append_new fw (MaxPool2d (kernel pp) (stride pp) (padding pp) (dilation pp)) st
               else if pooling_type self = ''avg'' then
                 append_new fw (AvgPool2d (kernel pp) (stride pp) (padding pp)) st
               else Inr st) = Inr st1"
    and h1: "in_h st1 = in_h st" and w1: "in_w st1 = in_w st"
  proof (cases "pooling_type self = ''max''")
    case True
    from append_new_total[OF assms(1)] obtain s1 where
      a: "append_new fw (MaxPool2d (kernel pp) (stride pp) (padding pp) (dilation pp)) st = Inr s1"
      by blast
    then have "in_h s1 = in_h st" "in_w s1 = in_w st" by (auto simp: append_new_Inr_iff)
    with a True that[of s1] show ?thesis by simp
  next
    case False
    note nm = this
    show ?thesis
    proof (cases "pooling_type self = ''avg''")
      case True
      from append_new_total[OF assms(1)] obtain s1 where
        a: "append_new fw (AvgPool2d (kernel pp) (stride pp) (padding pp)) st = Inr s1"
        by blast
      then have "in_h s1 = in_h st" "in_w s1 = in_w st" by (auto simp: append_new_Inr_iff)
      with a nm True that[of s1] show ?thesis by simp
    next
      case False
      with nm that[of st] show ?thesis by simp
    qed
  qed
  from assms(4,5) have "\<bar>in_h st1\<bar> + shrink_bound pp \<le> 2 ^ 53"
    "\<bar>in_w st1\<bar> + shrink_bound pp \<le> 2 ^ 53"
    unfolding h1 w1 .
  from update_sizes_total[OF s this] obtain st2 where 2: "update_sizes pp st1 = Inr st2"
    and b: "\<bar>in_h st2\<bar> \<le> \<bar>in_h st1\<bar> + shrink_bound pp"
      "\<bar>in_w st2\<bar> \<le> \<bar>in_w st1\<bar> + shrink_bound pp"
    by blast
  from assms(2) True 1 2 have "fe_pooling fw self pp idx st
      = Inr (st2\<lparr>pools_num := pools_num st2 + 1\<rparr>)"
    by (simp add: fe_pooling_def)
  with b show ?thesis unfolding h1 w1 by simp
qed

lemma fe_pooling_stride:
  assumes "fe_pooling fw self pp idx st = Inr st'" and "int idx mod pool_every self = 0"
  shows "stride pp \<noteq> 0"
  using assms
  by (auto simp: fe_pooling_def update_sizes_Inr_iff size_defined_def
           split: if_splits sum.splits)

lemma fe_body_total:
  assumes "\<forall>l g. fw l g \<noteq> None" and "1 \<le> idx" and "idx < length fl"
    and "stride cp \<noteq> 0" and "pool_every self \<noteq> 0"
    and "activation_type self = ''lrelu'' \<longrightarrow>
         map_of (activation_params self) ''negative_slope'' \<noteq> None"
    and "int idx mod pool_every self = 0 \<longrightarrow> stride pp \<noteq> 0"
    and "\<bar>in_h st\<bar> + (shrink_bound cp + shrink_bound pp) \<le> 2 ^ 53"
    and "\<bar>in_w st\<bar> + (shrink_bound cp + shrink_bound pp) \<le> 2 ^ 53"
  shows "\<exists>st'. fe_body fw self fl cp pp idx st = Inr st' \<and>
           \<bar>in_h st'\<bar> \<le> \<bar>in_h st\<bar> + (shrink_bound cp + shrink_bound pp) \<and>
           \<bar>in_w st'\<bar> \<le> \<bar>in_w st\<bar> + (shrink_bound cp + shrink_bound pp)"
proof -
  from assms(2,3) have i1: "py_index fl (int idx - 1) = Inr (fl ! (idx - 1))"
    by (simp add: py_index_nonneg nat_diff_distrib)
  from assms(3) have i2: "py_index fl (int idx) = Inr (fl ! idx)"
    by (simp add: py_index_nonneg)
  from append_new_total[OF assms(1)] obtain st1 where
    1: "append_new fw (Conv2d (fl ! (idx - 1)) (fl ! idx)
          (kernel cp) (stride cp) (padding cp) (dilation cp) True) st = Inr st1" by blast
  then have s1: "in_h st1 = in_h st" "in_w st1 = in_w st" by (auto simp: append_new_Inr_iff)
  from assms(8,9) shrink_bound_pos[of pp]
  have "\<bar>in_h st1\<bar> + shrink_bound cp \<le> 2 ^ 53" "\<bar>in_w st1\<bar> + shrink_bound cp \<le> 2 ^ 53"
    unfolding s1 by linarith+
  from update_sizes_total[OF assms(4) this] obtain st2 where
    2: "update_sizes cp st1 = Inr st2"
    and b2: "\<bar>in_h st2\<bar> \<le> \<bar>in_h st\<bar> + shrink_bound cp"
      "\<bar>in_w st2\<bar> \<le> \<bar>in_w st\<bar> + shrink_bound cp"
    unfolding s1 by blast
  from fe_activation_total[OF assms(1,6)] obtain st3 where
    3: "fe_activation fw self st2 = Inr st3" by blast
  note s3 = fe_activation_Inr(2,3)[OF 3]
  from b2 assms(8,9)
  have "\<bar>in_h st3\<bar> + shrink_bound pp \<le> 2 ^ 53" "\<bar>in_w st3\<bar> + shrink_bound pp \<le> 2 ^ 53"
    unfolding s3 by linarith+
  from fe_pooling_total[OF assms(1,5,7) this] obtain st4 where
    4: "fe_pooling fw self pp idx st3 = Inr st4"
    and b4: "\<bar>in_h st4\<bar> \<le> \<bar>in_h st3\<bar> + shrink_bound pp"
      "\<bar>in_w st4\<bar> \<le> \<bar>in_w st3\<bar> + shrink_bound pp"
    by blast
  from i1 i2 1 2 3 4 have "fe_body fw self fl cp pp idx st = Inr st4"
    by (simp add: fe_body_def)
  moreover from b2 b4 have "\<bar>in_h st4\<bar> \<le> \<bar>in_h st\<bar> + (shrink_bound cp + shrink_bound pp)"
    "\<bar>in_w st4\<bar> \<le> \<bar>in_w st\<bar> + (shrink_bound cp + shrink_bound pp)"
    unfolding s3 by linarith+
  ultimately show ?thesis by blast
qed

lemma fe_loop_total:
  assumes "\<forall>l g. fw l g \<noteq> None"
    and "stride cp \<noteq> 0" and "pool_every self \<noteq> 0"
    and "activation_type self = ''lrelu'' \<longrightarrow>
         map_of (activation_params self) ''negative_slope'' \<noteq> None"
    and "\<forall>idx \<in> set idxs. 1 \<le> idx \<and> idx < length fl \<and>
           (int idx mod pool_every self = 0 \<longrightarrow> stride pp \<noteq> 0)"
    and "\<bar>in_h st\<bar> + int (length idxs) * (shrink_bound cp + shrink_bound pp) \<le> 2 ^ 53"
    and "\<bar>in_w st\<bar> + int (length idxs) * (shrink_bound cp + shrink_bound pp) \<le> 2 ^ 53"
  shows "\<exists>st'. fe_loop fw self fl cp pp idxs st = Inr st'"
  using assms(5,6,7)
proof (induction idxs arbitrary: st)
  case Nil
  show ?case by simp
next
  case (Cons idx idxs)
  let ?B = "shrink_bound cp + shrink_bound pp"
  have B: "0 < ?B" using shrink_bound_pos[of cp] shrink_bound_pos[of pp] by linarith
  from Cons.prems(1) have i: "1 \<le> idx" "idx < length fl"
      "int idx mod pool_every self = 0 \<longrightarrow> stride pp \<noteq> 0"
    and r: "\<forall>idx \<in> set idxs. 1 \<le> idx \<and> idx < length fl \<and>
           (int idx mod pool_every self = 0 \<longrightarrow> stride pp \<noteq> 0)"
    by simp_all
  have split: "int (length (idx # idxs)) * ?B = ?B + int (length idxs) * ?B"
    by (simp add: algebra_simps)
  have nn: "0 \<le> int (length idxs) * ?B" using B by simp
  from Cons.prems(2,3) nn have h: "\<bar>in_h st\<bar> + ?B \<le> 2 ^ 53" "\<bar>in_w st\<bar> + ?B \<le> 2 ^ 53"
    unfolding split by linarith+
  from fe_body_total[OF assms(1) i(1,2) assms(2,3,4) i(3) h] obtain st1 where
    b: "fe_body fw self fl cp pp idx st = Inr st1"
    and b1: "\<bar>in_h st1\<bar> \<le> \<bar>in_h st\<bar> + ?B" "\<bar>in_w st1\<bar> \<le> \<bar>in_w st\<bar> + ?B"
    by blast
  from b1 Cons.prems(2,3)
  have "\<bar>in_h st1\<bar> + int (length idxs) * ?B \<le> 2 ^ 53"
    "\<bar>in_w st1\<bar> + int (length idxs) * ?B \<le> 2 ^ 53"
    unfolding split by linarith+
  from Cons.IH[OF r this] obtain st' where "fe_loop fw self fl cp pp idxs st1 = Inr st'"
    by blast
  with b show ?case by simp
qed

lemma fe_loop_pool_stride:
  assumes "fe_loop fw self fl cp pp idxs st = Inr st'"
    and "idx \<in> set idxs" and "int idx mod pool_every self = 0"
  shows "stride pp \<noteq> 0"
  using assms(1,2)
proof (induction idxs arbitrary: st)
  case Nil
  then show ?case by simp
next
  case (Cons i idxs)
  from Cons.prems(1) obtain st1 where b: "fe_body fw self fl cp pp i st = Inr st1"
    and l: "fe_loop fw self fl cp pp idxs st1 = Inr st'"
    by (rule fe_loop_Cons_Inr)
  show ?case
  proof (cases "idx = i")
    case True
    from b obtain st3 where "fe_pooling fw self pp i st3 = Inr st1"
      by (auto simp: fe_body_def split: sum.splits)
    then show ?thesis using assms(3) unfolding True by (rule fe_pooling_stride)
  next
    case False
    with Cons.prems(2) have "idx \<in> set idxs" by simp
    with l show ?thesis by (rule Cons.IH)
  qed
qed

lemma append_activation_total:
  assumes "\<forall>l g. fw l g \<noteq> None"
    and "t = ''lrelu'' \<longrightarrow> map_of ps ''negative_slope'' \<noteq> None"
  shows "\<exists>st'. append_activation fw t ps st = Inr st'"
proof -
  consider "t = ''relu''" | "t = ''lrelu''" "ps = []" | "t = ''lrelu''" "ps \<noteq> []"
    | "t \<noteq> ''relu''" "t \<noteq> ''lrelu''"
    by blast
  then show ?thesis
  proof cases
    case 1
    with append_new_total[OF assms(1), of ReLU st] show ?thesis
      by (simp add: append_activation_def)
  next
    case 2
    with append_new_total[OF assms(1), of "LeakyReLU None" st] show ?thesis
      by (simp add: append_activation_def)
  next
    case 3
    with assms(2) obtain s where s: "map_of ps ''negative_slope'' = Some s" by blast
    with 3 append_new_total[OF assms(1), of "LeakyReLU (Some s)" st] show ?thesis
      by (simp add: append_activation_def dict_get_def)
  next
    case 4
    then show ?thesis by (simp add: append_activation_def)
  qed
qed

lemma cls_loop_total:
  assumes "\<forall>l g. fw l g \<noteq> None"
    and "activation_type self = ''lrelu'' \<longrightarrow>
         map_of (activation_params self) ''negative_slope'' \<noteq> None"
  shows "\<exists>r. cls_loop fw self hs d st = Inr r"
proof (induction hs arbitrary: d st)
  case Nil
  show ?case by simp
next
  case (Cons h hs)
  from append_new_total[OF assms(1)] obtain st1 where
    1: "append_new fw (Linear d h) st = Inr st1" by blast
  from append_activation_total[OF assms] obtain st2 where
    2: "append_activation fw (activation_type self) (activation_params self) st1 = Inr st2"
    by blast
  from Cons.IH obtain r where "cls_loop fw self hs h st2 = Inr r" by blast
  with 1 2 show ?case by simp
qed

lemma make_classifier_total:
  assumes "\<forall>l g. fw l g \<noteq> None"
    and "activation_type self = ''lrelu'' \<longrightarrow>
         map_of (activation_params self) ''negative_slope'' \<noteq> None"
  shows "\<exists>cl g'. make_classifier fw self n g = Inr (cl, g')"
proof -
  from cls_loop_total[OF assms] obtain r where
    "cls_loop fw self (hidden_dims self) n \<lparr>layers = [], ambient = g\<rparr> = Inr r"
    by blast
  then obtain d st where
    1: "cls_loop fw self (hidden_dims self) n \<lparr>layers = [], ambient = g\<rparr> = Inr (d, st)"
    by (cases r) simp
  from append_new_total[OF assms(1)] obtain st1 where
    "append_new fw (Linear d (out_classes self)) st = Inr st1" by blast
  with 1 show ?thesis by (simp add: make_classifier_def)
qed

lemma multiple_at_least:
  assumes "int idx mod P = 0" and "1 \<le> idx"
  shows "\<bar>P\<bar> \<le> int idx"
proof -
  from assms(1) have "P dvd int idx" by (simp add: dvd_eq_mod_eq_0)
  then have "\<bar>P\<bar> dvd int idx" by simp
  moreover from assms(2) have "0 < int idx" by simp
  ultimately show ?thesis by (rule zdvd_imp_le)
qed

lemma construction_conditions:
  assumes "ConvClassifier_init fw a g = Inr (m, g')"
  shows "channels a \<noteq> [] \<and> hidden_dims a \<noteq> [] \<and>
         activation_type a \<in> set ACTIVATIONS \<and> pooling_type a \<in> set POOLINGS \<and>
         length (in_size a) = 3 \<and> pool_every a \<noteq> 0 \<and>
         (\<exists>cp pp. read_conv_params (conv_params a) = Inr cp \<and>
                  read_pooling_params (pooling_params a) = Inr pp \<and>
                  stride cp \<noteq> 0 \<and>
                  (\<bar>pool_every a\<bar> \<le> int (length (channels a)) \<longrightarrow> stride pp \<noteq> 0))"
proof -
  from assms obtain fe g1 cl where ch: "channels a \<noteq> []" and hd: "hidden_dims a \<noteq> []"
    and act: "activation_type a \<in> set ACTIVATIONS" and pool: "pooling_type a \<in> set POOLINGS"
    and mk: "ConvClassifier_make_feature_extractor fw a g = Inr (fe, g1)"
    unfolding ConvClassifier_init_def by (rule init_with_Inr)
  let ?idxs = "[Suc 0 ..< Suc (length (channels a))]"
  from mk obtain C H W cp pp st where s: "in_size a = [C, H, W]"
    and cp: "read_conv_params (conv_params a) = Inr cp"
    and pp: "read_pooling_params (pooling_params a) = Inr pp"
    and l: "fe_loop fw a (C # channels a) cp pp ?idxs
          \<lparr>layers = [], ambient = g, in_h = H, in_w = W, pools_num = 0\<rparr> = Inr st"
    by (rule make_feature_extractor_loop)
  have r: "\<forall>i \<in> set ?idxs. 1 \<le> i" by auto
  from ch have ne: "?idxs \<noteq> []" by (cases "channels a") simp_all
  note nz = fe_loop_nonzero[OF l r ne]
  have ps: "\<bar>pool_every a\<bar> \<le> int (length (channels a)) \<longrightarrow> stride pp \<noteq> 0"
  proof
    assume le: "\<bar>pool_every a\<bar> \<le> int (length (channels a))"
    let ?i = "nat \<bar>pool_every a\<bar>"
    from nz(1) have "1 \<le> ?i" by simp
    with le have "?i \<in> set ?idxs" by auto
    moreover have "int ?i mod pool_every a = 0" by simp
    ultimately show "stride pp \<noteq> 0" by (rule fe_loop_pool_stride[OF l])
  qed
  from s have "length (in_size a) = 3" by simp
  with ch hd act pool nz cp pp ps show ?thesis by blast
qed

lemma construction_total:
  assumes "\<forall>l g. fw l g \<noteq> None"
    and "channels a \<noteq> []" and "hidden_dims a \<noteq> []"
    and "activation_type a \<in> set ACTIVATIONS" and "pooling_type a \<in> set POOLINGS"
    and "in_size a = [C, H, W]" and "pool_every a \<noteq> 0"
    and "activation_type a = ''lrelu'' \<longrightarrow>
         map_of (activation_params a) ''negative_slope'' \<noteq> None"
    and "read_conv_params (conv_params a) = Inr cp"
    and "read_pooling_params (pooling_params a) = Inr pp"
    and "stride cp \<noteq> 0"
    and "\<bar>pool_every a\<bar> \<le> int (length (channels a)) \<longrightarrow> stride pp \<noteq> 0"
    and "max \<bar>H\<bar> \<bar>W\<bar> + int (length (channels a)) * (shrink_bound cp + shrink_bound pp)
           < 2 ^ 53"
  shows "\<exists>m g'. ConvClassifier_init fw a g = Inr (m, g')"
proof -
  let ?idxs = "[Suc 0 ..< Suc (length (channels a))]"
  let ?st = "\<lparr>layers = [], ambient = g, in_h = H, in_w = W, pools_num = 0\<rparr>"
  have "\<forall>idx \<in> set ?idxs. 1 \<le> idx \<and> idx < length (C # channels a) \<and>
           (int idx mod pool_every a = 0 \<longrightarrow> stride pp \<noteq> 0)"
  proof
    fix idx assume "idx \<in> set ?idxs"
    then have i: "1 \<le> idx" "idx \<le> length (channels a)" by auto
    have "stride pp \<noteq> 0" if "int idx mod pool_every a = 0"
    proof -
      from multiple_at_least[OF that i(1)] i(2)
      have "\<bar>pool_every a\<bar> \<le> int (length (channels a))" by linarith
      with assms(12) show ?thesis by simp
    qed
    with i show "1 \<le> idx \<and> idx < length (C # channels a) \<and>
           (int idx mod pool_every a = 0 \<longrightarrow> stride pp \<noteq> 0)" by simp
  qed
  moreover have len: "length ?idxs = length (channels a)"
    by (simp only: length_upt diff_Suc_Suc diff_zero)
  from assms(13)
  have "\<bar>in_h ?st\<bar> + int (length ?idxs) * (shrink_bound cp + shrink_bound pp) \<le> 2 ^ 53"
    "\<bar>in_w ?st\<bar> + int (length ?idxs) * (shrink_bound cp + shrink_bound pp) \<le> 2 ^ 53"
    unfolding len by simp_all
  ultimately obtain st where
    l: "fe_loop fw a (C # channels a) cp pp ?idxs ?st = Inr st"
    using fe_loop_total[OF assms(1) assms(11) assms(7) assms(8)] by blast
  from assms(2) obtain fe g1 where f: "fe_finish a st = Inr (fe, g1)"
    by (simp add: fe_finish_def py_index_last)
  from assms(6,9,10) l f have mk: "ConvClassifier_make_feature_extractor fw a g = Inr (fe, g1)"
    by (simp add: ConvClassifier_make_feature_extractor_def del: upt_Suc)
  from make_classifier_total[OF assms(1) assms(8)] obtain cl g2 where
    "make_classifier fw a (fe_features_num fe) g1 = Inr (cl, g2)" by blast
  with mk assms(2-5) show ?thesis
    by (simp add: ConvClassifier_init_def ConvClassifier_init_with_def)
qed

text \<open>
  Claim C4, as amended. \<^verbatim>\<open>ConvClassifier.__init__\<close> checks its arguments only so far:
  an empty \<open>channels\<close> or \<open>hidden_dims\<close> fails the assertion, and otherwise an unknown
  activation or pooling type raises ValueError. Arguments that pass both checks can still
  make construction raise. With a framework that accepts every layer, construction
  completes only if, in addition, \<open>in_size\<close> has three entries, both dictionaries hold a
  \<open>kernel_size\<close>, the convolution stride and \<open>pool_every\<close> are not 0, and the pooling
  stride is not 0 when a pooling layer is reached. It does complete under these
  conditions when the activation is \<open>relu\<close>, or \<open>lrelu\<close> with a \<open>negative_slope\<close> in
  \<open>activation_params\<close>, and the sizes are small enough for every quotient to be computed
  exactly: the larger of \<open>|H|\<close> and \<open>|W|\<close>, plus for each entry of \<open>channels\<close> the
  amounts \<open>2*|padding| + |dilation*(kernel - 1)| + 2\<close> of the convolution and of the
  pooling, is below \<open>2^53\<close>.
\<close>

theorem construction_completes_when:
  assumes "\<forall>l g. fw l g \<noteq> None"
  shows "(channels a = [] \<or> hidden_dims a = [] \<longrightarrow>
            ConvClassifier_init fw a g = Inl AssertionError) \<and>
         (channels a \<noteq> [] \<and> hidden_dims a \<noteq> [] \<and>
          (activation_type a \<notin> set ACTIVATIONS \<or> pooling_type a \<notin> set POOLINGS) \<longrightarrow>
            ConvClassifier_init fw a g = Inl ValueError) \<and>
         ((\<exists>m g'. ConvClassifier_init fw a g = Inr (m, g')) \<longrightarrow>
            channels a \<noteq> [] \<and> hidden_dims a \<noteq> [] \<and>
            activation_type a \<in> set ACTIVATIONS \<and> pooling_type a \<in> set POOLINGS \<and>
            length (in_size a) = 3 \<and> pool_every a \<noteq> 0 \<and>
            (\<exists>cp pp. read_conv_params (conv_params a) = Inr cp \<and>
                     read_pooling_params (pooling_params a) = Inr pp \<and>
                     stride cp \<noteq> 0 \<and>
                     (\<bar>pool_every a\<bar> \<le> int (length (channels a)) \<longrightarrow> stride pp \<noteq> 0))) \<and>
         (channels a \<noteq> [] \<and> hidden_dims a \<noteq> [] \<and>
          activation_type a \<in> set ACTIVATIONS \<and> pooling_type a \<in> set POOLINGS \<and>
          pool_every a \<noteq> 0 \<and>
          (activation_type a = ''lrelu'' \<longrightarrow>
             map_of (activation_params a) ''negative_slope'' \<noteq> None) \<and>
          (\<exists>C H W cp pp.
             in_size a = [C, H, W] \<and>
             read_conv_params (conv_params a) = Inr cp \<and>
             read_pooling_params (pooling_params a) = Inr pp \<and>
             stride cp \<noteq> 0 \<and>
             (\<bar>pool_every a\<bar> \<le> int (length (channels a)) \<longrightarrow> stride pp \<noteq> 0) \<and>
             max \<bar>H\<bar> \<bar>W\<bar> + int (length (channels a)) * (shrink_bound cp + shrink_bound pp)
               < 2 ^ 53) \<longrightarrow>
            (\<exists>m g'. ConvClassifier_init fw a g = Inr (m, g')))"
proof (intro conjI)
  show "channels a = [] \<or> hidden_dims a = [] \<longrightarrow>
            ConvClassifier_init fw a g = Inl AssertionError"
    by (simp add: ConvClassifier_init_def ConvClassifier_init_with_def)
  show "channels a \<noteq> [] \<and> hidden_dims a \<noteq> [] \<and>
          (activation_type a \<notin> set ACTIVATIONS \<or> pooling_type a \<notin> set POOLINGS) \<longrightarrow>
            ConvClassifier_init fw a g = Inl ValueError"
    by (simp add: ConvClassifier_init_def ConvClassifier_init_with_def)
  show "(\<exists>m g'. ConvClassifier_init fw a g = Inr (m, g')) \<longrightarrow>
            channels a \<noteq> [] \<and> hidden_dims a \<noteq> [] \<and>
            activation_type a \<in> set ACTIVATIONS \<and> pooling_type a \<in> set POOLINGS \<and>
            length (in_size a) = 3 \<and> pool_every a \<noteq> 0 \<and>
            (\<exists>cp pp. read_conv_params (conv_params a) = Inr cp \<and>
                     read_pooling_params (pooling_params a) = Inr pp \<and>
                     stride cp \<noteq> 0 \<and>
                     (\<bar>pool_every a\<bar> \<le> int (length (channels a)) \<longrightarrow> stride pp \<noteq> 0))"
  proof
    assume "\<exists>m g'. ConvClassifier_init fw a g = Inr (m, g')"
    then obtain m g' where "ConvClassifier_init fw a g = Inr (m, g')" by blast
    then show "channels a \<noteq> [] \<and> hidden_dims a \<noteq> [] \<and>
            activation_type a \<in> set ACTIVATIONS \<and> pooling_type a \<in> set POOLINGS \<and>
            length (in_size a) = 3 \<and> pool_every a \<noteq> 0 \<and>
            (\<exists>cp pp. read_conv_params (conv_params a) = Inr cp \<and>
                     read_pooling_params (pooling_params a) = Inr pp \<and>
                     stride cp \<noteq> 0 \<and>
                     (\<bar>pool_every a\<bar> \<le> int (length (channels a)) \<longrightarrow> stride pp \<noteq> 0))"
      by (rule construction_conditions)
  qed
  show "channels a \<noteq> [] \<and> hidden_dims a \<noteq> [] \<and>
          activation_type a \<in> set ACTIVATIONS \<and> pooling_type a \<in> set POOLINGS \<and>
          pool_every a \<noteq> 0 \<and>
          (activation_type a = ''lrelu'' \<longrightarrow>
             map_of (activation_params a) ''negative_slope'' \<noteq> None) \<and>
          (\<exists>C H W cp pp.
             in_size a = [C, H, W] \<and>
             read_conv_params (conv_params a) = Inr cp \<and>
             read_pooling_params (pooling_params a) = Inr pp \<and>
             stride cp \<noteq> 0 \<and>
             (\<bar>pool_every a\<bar> \<le> int (length (channels a)) \<longrightarrow> stride pp \<noteq> 0) \<and>
             max \<bar>H\<bar> \<bar>W\<bar> + int (length (channels a)) * (shrink_bound cp + shrink_bound pp)
               < 2 ^ 53) \<longrightarrow>
            (\<exists>m g'. ConvClassifier_init fw a g = Inr (m, g'))"
  proof
    assume R: "channels a \<noteq> [] \<and> hidden_dims a \<noteq> [] \<and>
          activation_type a \<in> set ACTIVATIONS \<and> pooling_type a \<in> set POOLINGS \<and>
          pool_every a \<noteq> 0 \<and>
          (activation_type a = ''lrelu'' \<longrightarrow>
             map_of (activation_params a) ''negative_slope'' \<noteq> None) \<and>
          (\<exists>C H W cp pp.
             in_size a = [C, H, W] \<and>
             read_conv_params (conv_params a) = Inr cp \<and>
             read_pooling_params (pooling_params a) = Inr pp \<and>
             stride cp \<noteq> 0 \<and>
             (\<bar>pool_every a\<bar> \<le> int (length (channels a)) \<longrightarrow> stride pp \<noteq> 0) \<and>
             max \<bar>H\<bar> \<bar>W\<bar> + int (length (channels a)) * (shrink_bound cp + shrink_bound pp)
               < 2 ^ 53)"
    then obtain C H W cp pp where e: "in_size a = [C, H, W]"
      "read_conv_params (conv_params a) = Inr cp"
      "read_pooling_params (pooling_params a) = Inr pp" "stride cp \<noteq> 0"
      "\<bar>pool_every a\<bar> \<le> int (length (channels a)) \<longrightarrow> stride pp \<noteq> 0"
      "max \<bar>H\<bar> \<bar>W\<bar> + int (length (channels a)) * (shrink_bound cp + shrink_bound pp) < 2 ^ 53"
      by blast
    from R have r: "channels a \<noteq> []" "hidden_dims a \<noteq> []"
      "activation_type a \<in> set ACTIVATIONS" "pooling_type a \<in> set POOLINGS"
      "pool_every a \<noteq> 0"
      "activation_type a = ''lrelu'' \<longrightarrow>
         map_of (activation_params a) ''negative_slope'' \<noteq> None"
      by blast+
    show "\<exists>m g'. ConvClassifier_init fw a g = Inr (m, g')"
      by (rule construction_total[OF assms r(1-4) e(1) r(5,6) e(2-6)])
  qed
qed

lemma accept_all_total: "\<forall>l g. accept_all l g \<noteq> None"
  by (simp add: accept_all_def)

lemma example_args_complete:
  "channels example_args \<noteq> [] \<and> hidden_dims example_args \<noteq> [] \<and>
   activation_type example_args \<in> set ACTIVATIONS \<and>
   pooling_type example_args \<in> set POOLINGS \<and>
   pool_every example_args \<noteq> 0 \<and>
   (activation_type example_args = ''lrelu'' \<longrightarrow>
      map_of (activation_params example_args) ''negative_slope'' \<noteq> None) \<and>
   (\<exists>C H W cp pp.
      in_size example_args = [C, H, W] \<and>
      read_conv_params (conv_params example_args) = Inr cp \<and>
      read_pooling_params (pooling_params example_args) = Inr pp \<and>
      stride cp \<noteq> 0 \<and>
      (\<bar>pool_every example_args\<bar> \<le> int (length (channels example_args))
         \<longrightarrow> stride pp \<noteq> 0) \<and>
      max \<bar>H\<bar> \<bar>W\<bar>
        + int (length (channels example_args)) * (shrink_bound cp + shrink_bound pp)
        < 2 ^ 53)"
  by (simp add: example_args_def ACTIVATIONS_def POOLINGS_def read_conv_params_def
        read_pooling_params_def dict_get_def dict_get_default_def shrink_bound_def)

theorem construction_completes_when_witness:
  "(\<forall>l g. accept_all l g \<noteq> None) \<and>
   ConvClassifier_init accept_all example_args () = Inr (example_classifier, ()) \<and>
   channels example_args \<noteq> [] \<and> hidden_dims example_args \<noteq> [] \<and>
   activation_type example_args \<in> set ACTIVATIONS \<and>
   pooling_type example_args \<in> set POOLINGS \<and>
   length (in_size example_args) = 3 \<and> pool_every example_args \<noteq> 0 \<and>
   (\<exists>m g'. ConvClassifier_init accept_all example_args () = Inr (m, g'))"
proof -
  note t = construction_completes_when [OF accept_all_total, of example_args "()"]
  from t example_args_complete
  have 1: "\<exists>m g'. ConvClassifier_init accept_all example_args () = Inr (m, g')" by blast
  with t have "channels example_args \<noteq> [] \<and> hidden_dims example_args \<noteq> [] \<and>
      activation_type example_args \<in> set ACTIVATIONS \<and>
      pooling_type example_args \<in> set POOLINGS \<and>
      length (in_size example_args) = 3 \<and> pool_every example_args \<noteq> 0"
    by blast
  with 1 accept_all_total example_classifier_built show ?thesis by blast
qed

text \<open>
  The claim as written fails with the defaults of the signature: with valid types,
  non-empty \<open>channels\<close> and \<open>hidden_dims\<close> and \<open>conv_params = {}\<close>, \<open>pooling_params = {}\<close>,
  construction raises KeyError.
\<close>

theorem construction_default_params_counterexample:
  "channels (example_args\<lparr>conv_params := [], pooling_params := []\<rparr>) \<noteq> [] \<and>
   hidden_dims (example_args\<lparr>conv_params := [], pooling_params := []\<rparr>) \<noteq> [] \<and>
   activation_type (example_args\<lparr>conv_params := [], pooling_params := []\<rparr>)
     \<in> set ACTIVATIONS \<and>
   pooling_type (example_args\<lparr>conv_params := [], pooling_params := []\<rparr>) \<in> set POOLINGS \<and>
   ConvClassifier_init accept_all (example_args\<lparr>conv_params := [], pooling_params := []\<rparr>) ()
     = Inl KeyError"
  by code_simp

section \<open>ResidualBlock\<close>

lemma rb_loop_Inr:
  assumes "rb_loop fw b (enumerate n cs) st = Inr st'"
    and "n + length cs = length (rb_channels b)"
    and "length (rb_kernel_sizes b) = length (rb_channels b)"
  shows "layers st' = layers st @
           rb_main_layers b (activation_layers (rb_activation_type b) (rb_activation_params b))
             (tmp_in_channels st) (zip cs (drop n (rb_kernel_sizes b)))
         \<and> tmp_in_channels st' = last (tmp_in_channels st # cs)"
  using assms(1,2)
proof (induction cs arbitrary: n st)
  case Nil
  then show ?case by simp
next
  case (Cons c cs)
  let ?ks = "rb_kernel_sizes b"
  from Cons.prems(2) assms(3) have n: "n < length ?ks" by simp
  then have k: "py_index ?ks (int n) = Inr (?ks ! n)" by (simp add: py_index_nonneg)
  have dr: "drop n ?ks = ?ks ! n # drop (Suc n) ?ks" using n by (simp add: Cons_nth_drop_Suc)
  from Cons.prems(1) k obtain pd where "int_truediv (?ks ! n) 2 = Inr pd"
    by (auto split: sum.splits)
  then have pad: "int_truediv (?ks ! n) 2 = Inr (quotient_int (?ks ! n) 2)"
    by (simp add: int_truediv_Inr_iff)
  from Cons.prems(2) assms(3) have len: "length (drop (Suc n) ?ks) = length cs" by simp
  have brk: "(int n = int (length (rb_channels b)) - 1) \<longleftrightarrow> cs = []"
  proof -
    from Cons.prems(2) have "int (length (rb_channels b)) = int n + 1 + int (length cs)" by simp
    then show ?thesis by auto
  qed
  have z: "zip cs (drop (Suc n) ?ks) = [] \<longleftrightarrow> cs = []"
    using len by (cases cs; cases "drop (Suc n) ?ks") simp_all
  from Cons.prems(1) k pad obtain st1 where
    1: "append_new fw (Conv2d (tmp_in_channels st) c (?ks ! n) 1 (quotient_int (?ks ! n) 2) 1 True) st
          = Inr st1"
    by (auto split: sum.splits)
  then have l1: "layers st1 = layers st @
      [Conv2d (tmp_in_channels st) c (?ks ! n) 1 (quotient_int (?ks ! n) 2) 1 True]"
    by (auto simp: append_new_Inr_iff)
  show ?case
  proof (cases "cs = []")
    case True
    with Cons.prems(1) k pad 1 brk have "st' = st1\<lparr>tmp_in_channels := c\<rparr>"
      by (simp add: Let_def)
    with l1 True dr show ?thesis by simp
  next
    case False
    with Cons.prems(1) k pad 1 brk obtain st3 st4 st5 where
      3: "append_new fw (Dropout2d (rb_dropout b)) (st1\<lparr>tmp_in_channels := c\<rparr>) = Inr st3"
      and 4: "(if rb_batchnorm b then append_new fw (BatchNorm2d c) st3 else Inr st3) = Inr st4"
      and 5: "append_activation fw (rb_activation_type b) (rb_activation_params b) st4 = Inr st5"
      and 6: "rb_loop fw b (enumerate (Suc n) cs) st5 = Inr st'"
      by (auto simp: Let_def split: sum.splits)
    from 3 have l3: "layers st3 = layers st1 @ [Dropout2d (rb_dropout b)]"
      and t3: "tmp_in_channels st3 = c"
      by (auto simp: append_new_Inr_iff)
    from 4 have l4: "layers st4 = layers st3 @ (if rb_batchnorm b then [BatchNorm2d c] else [])"
      and t4: "tmp_in_channels st4 = tmp_in_channels st3"
      by (auto simp: append_new_Inr_iff split: if_splits)
    from append_activation_Inr(1)[OF 5] have l5: "layers st5 = layers st4 @
        activation_layers (rb_activation_type b) (rb_activation_params b)" .
    from 5 have t5: "tmp_in_channels st5 = tmp_in_channels st4"
      by (auto simp: append_activation_def append_new_Inr_iff split: if_splits sum.splits)
    from Cons.prems(2) have "Suc n + length cs = length (rb_channels b)" by simp
    from Cons.IH[OF 6 this] l1 l3 l4 l5 t3 t4 t5 False z dr show ?thesis
      by simp
  qed
qed

lemma rb_loop_kernels:
  assumes "rb_loop fw b (enumerate n cs) st = Inr st'"
    and "n + length cs = length (rb_channels b)"
    and "length (rb_kernel_sizes b) = length (rb_channels b)"
    and "rejects_unbuildable_kernels fw"
  shows "\<forall>k \<in> set (drop n (rb_kernel_sizes b)). 0 \<le> k \<and> k < 2 ^ 53"
  using assms(1,2)
proof (induction cs arbitrary: n st)
  case Nil
  with assms(3) show ?case by simp
next
  case (Cons c cs)
  let ?ks = "rb_kernel_sizes b"
  from Cons.prems(2) assms(3) have n: "n < length ?ks" by simp
  then have k: "py_index ?ks (int n) = Inr (?ks ! n)" by (simp add: py_index_nonneg)
  have dr: "drop n ?ks = ?ks ! n # drop (Suc n) ?ks" using n by (simp add: Cons_nth_drop_Suc)
  from Cons.prems(1) k obtain pd where "int_truediv (?ks ! n) 2 = Inr pd"
    by (auto split: sum.splits)
  then have pad: "int_truediv (?ks ! n) 2 = Inr (quotient_int (?ks ! n) 2)"
    by (simp add: int_truediv_Inr_iff)
  from Cons.prems(1) k pad obtain st1 where
    1: "append_new fw (Conv2d (tmp_in_channels st) c (?ks ! n) 1 (quotient_int (?ks ! n) 2) 1 True) st
          = Inr st1"
    by (auto split: sum.splits)
  then obtain g1 where acc:
    "fw (Conv2d (tmp_in_channels st) c (?ks ! n) 1 (quotient_int (?ks ! n) 2) 1 True) (ambient st)
       = Some g1"
    by (auto simp: append_new_Inr_iff)
  have k0: "0 \<le> ?ks ! n \<and> ?ks ! n < 2 ^ 53"
  proof (rule ccontr)
    assume "\<not> (0 \<le> ?ks ! n \<and> ?ks ! n < 2 ^ 53)"
    then have "?ks ! n < 0 \<or> 2 ^ 53 \<le> ?ks ! n" by linarith
    with assms(4) have
      "fw (Conv2d (tmp_in_channels st) c (?ks ! n) 1 (quotient_int (?ks ! n) 2) 1 True) (ambient st)
         = None"
      unfolding rejects_unbuildable_kernels_def by blast
    with acc show False by simp
  qed
  show ?case
  proof (cases "cs = []")
    case True
    with Cons.prems(2) assms(3) have "drop (Suc n) ?ks = []" by simp
    with k0 dr show ?thesis by simp
  next
    case False
    have brk: "int n \<noteq> int (length (rb_channels b)) - 1"
    proof -
      from Cons.prems(2) have "int (length (rb_channels b)) = int n + 1 + int (length cs)" by simp
      with False show ?thesis by auto
    qed
    with Cons.prems(1) k pad 1 obtain st5 where
      "rb_loop fw b (enumerate (Suc n) cs) st5 = Inr st'"
      by (auto simp: Let_def split: sum.splits)
    moreover from Cons.prems(2) have "Suc n + length cs = length (rb_channels b)" by simp
    ultimately have "\<forall>k \<in> set (drop (Suc n) ?ks). 0 \<le> k \<and> k < 2 ^ 53"
      by (rule Cons.IH)
    with k0 dr show ?thesis by simp
  qed
qed

lemma ResidualBlock_init_Inr:
  assumes "ResidualBlock_init fw b g = Inr (blk, g')"
  shows "rb_channels b \<noteq> []"
    and "length (rb_kernel_sizes b) = length (rb_channels b)"
    and "list_all (\<lambda>x. x mod 2 = 1) (rb_kernel_sizes b)"
    and "rb_activation_type b \<in> set ACTIVATIONS"
    and "modules (main_path blk) =
           rb_main_layers b (activation_layers (rb_activation_type b) (rb_activation_params b))
             (rb_in_channels b) (zip (rb_channels b) (rb_kernel_sizes b))"
    and "modules (shortcut_path blk) =
           (if last (rb_channels b) \<noteq> rb_in_channels b
            then [Conv2d (rb_in_channels b) (last (rb_channels b)) 1 1 0 1 False] else [])"
    and "rejects_unbuildable_kernels fw \<Longrightarrow>
           \<forall>k \<in> set (rb_kernel_sizes b). 0 \<le> k \<and> k < 2 ^ 53"
proof -
  from assms show c: "rb_channels b \<noteq> []"
    and len: "length (rb_kernel_sizes b) = length (rb_channels b)"
    and od: "list_all (\<lambda>x. x mod 2 = 1) (rb_kernel_sizes b)"
    and act: "rb_activation_type b \<in> set ACTIVATIONS"
    by (auto simp: ResidualBlock_init_def split: if_splits)
  from c len have ks: "rb_kernel_sizes b \<noteq> []" by auto
  from assms c ks len od act obtain st where
    l: "rb_loop fw b (enumerate 0 (rb_channels b))
          \<lparr>layers = [], ambient = g, tmp_in_channels = rb_in_channels b\<rparr> = Inr st"
    and r: "(if tmp_in_channels st \<noteq> rb_in_channels b then
                (case new_layer fw
                        (Conv2d (rb_in_channels b) (tmp_in_channels st) 1 1 0 1 False)
                        (ambient st) of
                   Inl e \<Rightarrow> Inl e
                 | Inr g' \<Rightarrow>
                     Inr (\<lparr>main_path = Sequential (layers st),
                           shortcut_path =
                             Sequential
                               [Conv2d (rb_in_channels b) (tmp_in_channels st) 1 1 0 1 False]\<rparr>,
                          g'))
              else
                Inr (\<lparr>main_path = Sequential (layers st), shortcut_path = Sequential []\<rparr>,
                     ambient st)) = Inr (blk, g')"
    by (simp add: ResidualBlock_init_def split: sum.splits)
  have z: "0 + length (rb_channels b) = length (rb_channels b)" by simp
  from rb_loop_Inr[OF l z len] c
  have ls: "layers st =
      rb_main_layers b (activation_layers (rb_activation_type b) (rb_activation_params b))
        (rb_in_channels b) (zip (rb_channels b) (rb_kernel_sizes b))"
    and t: "tmp_in_channels st = last (rb_channels b)"
    by simp_all
  from r have m: "main_path blk = Sequential (layers st)"
    and sc: "shortcut_path blk = Sequential (if tmp_in_channels st \<noteq> rb_in_channels b
       then [Conv2d (rb_in_channels b) (tmp_in_channels st) 1 1 0 1 False] else [])"
    by (auto split: if_splits sum.splits)
  from m ls show "modules (main_path blk) =
           rb_main_layers b (activation_layers (rb_activation_type b) (rb_activation_params b))
             (rb_in_channels b) (zip (rb_channels b) (rb_kernel_sizes b))"
    by simp
  from sc t show "modules (shortcut_path blk) =
           (if last (rb_channels b) \<noteq> rb_in_channels b
            then [Conv2d (rb_in_channels b) (last (rb_channels b)) 1 1 0 1 False] else [])"
    by simp
  show "\<forall>k \<in> set (rb_kernel_sizes b). 0 \<le> k \<and> k < 2 ^ 53"
    if "rejects_unbuildable_kernels fw"
    using rb_loop_kernels[OF l z len that] by simp
qed

lemma activation_layers_shape: "path_shape (activation_layers t ps) x = Some x"
  by (cases x) (simp add: activation_layers_def split: option.splits)

lemma activation_layers_no_conv: "filter is_conv (activation_layers t ps) = []"
  by (simp add: activation_layers_def split: option.splits)

lemma path_shape_append:
  "path_shape (xs @ ys) x = (case path_shape xs x of None \<Rightarrow> None | Some y \<Rightarrow> path_shape ys y)"
  by (induction xs arbitrary: x) (simp_all split: option.splits)

lemma odd_kernel_padding:
  assumes "k mod 2 = 1" and "0 \<le> (k::int)" and "k < 2 ^ 53"
  shows "quotient_int k 2 = k div 2" and "h + 2 * (k div 2) - 1 * (k - 1) - 1 = h - 1"
proof -
  from assms(2,3) have "\<bar>k\<bar> < 2 ^ 53" by simp
  with int_truediv_exact[of 2 k] have "int_truediv k 2 = Inr (trunc_quot k 2)" by simp
  then have "quotient_int k 2 = trunc_quot k 2" by (simp add: int_truediv_Inr_iff)
  also have "\<dots> = k div 2" using assms(2) by (simp add: trunc_quot_def sgn_if)
  finally show "quotient_int k 2 = k div 2" .
  from assms(1) have "k = 2 * (k div 2) + 1" by presburger
  then show "h + 2 * (k div 2) - 1 * (k - 1) - 1 = h - 1" by simp
qed

lemma quotient_int_half_one: "quotient_int 1 2 = 0"
  using odd_kernel_padding(1)[of 1] by simp

lemma rb_main_layers_shape:
  assumes "\<forall>(c, k) \<in> set pairs. k mod 2 = 1 \<and> 0 \<le> k \<and> k < 2 ^ 53"
    and "\<And>x. path_shape act x = Some x"
  shows "path_shape (rb_main_layers b act prev pairs) (prev, h, w) =
           Some (last (prev # map fst pairs), h, w)"
  using assms(1)
proof (induction pairs arbitrary: prev)
  case Nil
  show ?case by simp
next
  case (Cons p pairs)
  obtain c k where p: "p = (c, k)" by (cases p)
  from Cons.prems p have k: "k mod 2 = 1" "0 \<le> k" "k < 2 ^ 53"
    and r: "\<forall>(c, k) \<in> set pairs. k mod 2 = 1 \<and> 0 \<le> k \<and> k < 2 ^ 53" by simp_all
  note o = odd_kernel_padding[OF k]
  have conv: "layer_shape (Conv2d prev c k 1 (quotient_int k 2) 1 True) (prev, h, w) = Some (c, h, w)"
    using o(2)[of h] o(2)[of w] by (simp add: o(1))
  show ?case
  proof (cases "pairs = []")
    case True
    with conv p show ?thesis by simp
  next
    case False
    have "path_shape (Dropout2d (rb_dropout b) # (if rb_batchnorm b then [BatchNorm2d c] else [])
             @ act @ rb_main_layers b act c pairs) (c, h, w)
        = path_shape (rb_main_layers b act c pairs) (c, h, w)"
      by (simp add: path_shape_append assms(2))
    also have "\<dots> = Some (last (c # map fst pairs), h, w)" by (rule Cons.IH[OF r])
    finally have tail: "path_shape (Dropout2d (rb_dropout b)
             # (if rb_batchnorm b then [BatchNorm2d c] else [])
             @ act @ rb_main_layers b act c pairs) (c, h, w)
        = Some (last (c # map fst pairs), h, w)" .
    have "rb_main_layers b act prev (p # pairs) =
        Conv2d prev c k 1 (quotient_int k 2) 1 True
        # (Dropout2d (rb_dropout b) # (if rb_batchnorm b then [BatchNorm2d c] else [])
           @ act @ rb_main_layers b act c pairs)"
      using False by (simp add: p)
    then have "path_shape (rb_main_layers b act prev (p # pairs)) (prev, h, w) =
        path_shape (Dropout2d (rb_dropout b) # (if rb_batchnorm b then [BatchNorm2d c] else [])
           @ act @ rb_main_layers b act c pairs) (c, h, w)"
      using conv by (simp only: path_shape.simps option.case)
    with tail show ?thesis by (simp add: p)
  qed
qed

lemma rb_main_layers_convs:
  assumes "\<forall>(c, k) \<in> set pairs. k mod 2 = 1 \<and> 0 \<le> k \<and> k < 2 ^ 53"
    and "filter is_conv act = []"
  shows "\<forall>l \<in> set (rb_main_layers b act prev pairs).
           is_conv l \<longrightarrow> (\<exists>i out k. l = Conv2d i out k 1 (k div 2) 1 True \<and> odd k \<and> 0 < k)"
  using assms(1)
proof (induction pairs arbitrary: prev)
  case Nil
  show ?case by simp
next
  case (Cons p pairs)
  obtain c k where p: "p = (c, k)" by (cases p)
  from Cons.prems p have k: "k mod 2 = 1" "0 \<le> k" "k < 2 ^ 53"
    and r: "\<forall>(c, k) \<in> set pairs. k mod 2 = 1 \<and> 0 \<le> k \<and> k < 2 ^ 53" by simp_all
  from k have odd: "odd k" "0 < k" by presburger+
  from assms(2) have na: "\<forall>l \<in> set act. \<not> is_conv l" by (simp add: filter_empty_conv)
  from Cons.IH[OF r, of c] na odd show ?case
    unfolding p by (auto simp: odd_kernel_padding(1)[OF k])
qed

lemma rb_main_layers_count:
  assumes "filter is_conv act = []"
  shows "length (filter is_conv (rb_main_layers b act prev pairs)) = length pairs"
  by (induction pairs arbitrary: prev) (auto simp: assms)

lemma rb_main_layers_last:
  assumes "pairs \<noteq> []"
  shows "\<exists>c. last (rb_main_layers b act prev pairs) =
           Conv2d c (fst (last pairs)) (snd (last pairs)) 1 (quotient_int (snd (last pairs)) 2) 1 True"
  using assms
proof (induction pairs arbitrary: prev)
  case Nil
  then show ?case by simp
next
  case (Cons p pairs)
  obtain c k where p: "p = (c, k)" by (cases p)
  show ?case
  proof (cases "pairs = []")
    case True
    then show ?thesis by (simp add: p)
  next
    case False
    from Cons.IH[OF False, of c] obtain c' where
      l: "last (rb_main_layers b act c pairs) =
           Conv2d c' (fst (last pairs)) (snd (last pairs)) 1 (quotient_int (snd (last pairs)) 2) 1 True"
      by blast
    from False have ne: "rb_main_layers b act c pairs \<noteq> []" by (cases pairs) auto
    from False ne l show ?thesis by (auto simp: p)
  qed
qed

lemma kernel_pairs:
  assumes "length ks = length cs" and "list_all (\<lambda>x. x mod 2 = 1) ks"
    and "\<forall>k \<in> set ks. 0 \<le> (k::int) \<and> k < 2 ^ 53"
  shows "\<forall>(c, k) \<in> set (zip cs ks). k mod 2 = 1 \<and> 0 \<le> k \<and> k < 2 ^ 53"
  using assms(2,3) by (auto simp: list_all_iff dest: set_zip_rightD)

subsection \<open>Both paths of a residual block\<close>

text \<open>
  Claim C8. For every ResidualBlock constructed successfully, on a framework that cannot
  build a convolution with a negative kernel size, nor one with a kernel size of \<open>2^53\<close>
  and more (where \<^verbatim>\<open>int(k / 2)\<close>, a quotient of doubles, leaves \<open>k // 2\<close>): every
  convolution of the main path has
  an odd kernel size \<open>k\<close>, stride 1, padding \<open>k // 2\<close>, dilation 1 and a bias, and there is
  one per entry of \<open>channels\<close>; the shortcut path is one 1x1 convolution without bias when
  \<open>channels[-1]\<close> differs from \<open>in_channels\<close> and empty when they are equal; and each path
  takes an input of \<open>in_channels\<close> channels and any height and width to \<open>channels[-1]\<close>
  channels of the same height and width.
\<close>

theorem residual_block_paths:
  assumes "ResidualBlock_init fw b g = Inr (blk, g')" and "rejects_unbuildable_kernels fw"
  shows "(\<forall>l \<in> set (modules (main_path blk)).
            is_conv l \<longrightarrow> (\<exists>i out k. l = Conv2d i out k 1 (k div 2) 1 True \<and> odd k \<and> 0 < k)) \<and>
         length (filter is_conv (modules (main_path blk))) = length (rb_channels b) \<and>
         modules (shortcut_path blk) =
           (if last (rb_channels b) \<noteq> rb_in_channels b
            then [Conv2d (rb_in_channels b) (last (rb_channels b)) 1 1 0 1 False] else []) \<and>
         path_shape (modules (main_path blk)) (rb_in_channels b, h, w) =
           Some (last (rb_channels b), h, w) \<and>
         path_shape (modules (shortcut_path blk)) (rb_in_channels b, h, w) =
           Some (last (rb_channels b), h, w)"
proof -
  note i = ResidualBlock_init_Inr[OF assms(1)]
  let ?act = "activation_layers (rb_activation_type b) (rb_activation_params b)"
  let ?pairs = "zip (rb_channels b) (rb_kernel_sizes b)"
  have pr: "\<forall>(c, k) \<in> set ?pairs. k mod 2 = 1 \<and> 0 \<le> k \<and> k < 2 ^ 53"
    using i(2) i(3) i(7)[OF assms(2)] by (rule kernel_pairs)
  have fst: "map fst ?pairs = rb_channels b" using i(2) by (simp add: map_fst_zip)
  have 1: "\<forall>l \<in> set (modules (main_path blk)).
            is_conv l \<longrightarrow> (\<exists>i out k. l = Conv2d i out k 1 (k div 2) 1 True \<and> odd k \<and> 0 < k)"
    unfolding i(5) using pr activation_layers_no_conv by (rule rb_main_layers_convs)
  have 2: "length (filter is_conv (modules (main_path blk))) = length (rb_channels b)"
    unfolding i(5) using i(2) by (simp add: rb_main_layers_count activation_layers_no_conv)
  have "path_shape (modules (main_path blk)) (rb_in_channels b, h, w) =
      Some (last (rb_in_channels b # map fst ?pairs), h, w)"
    unfolding i(5) using pr activation_layers_shape by (rule rb_main_layers_shape)
  then have 4: "path_shape (modules (main_path blk)) (rb_in_channels b, h, w) =
      Some (last (rb_channels b), h, w)"
    using i(1) by (simp add: fst)
  have 5: "path_shape (modules (shortcut_path blk)) (rb_in_channels b, h, w) =
           Some (last (rb_channels b), h, w)"
    unfolding i(6) by simp
  from 1 2 i(6) 4 5 show ?thesis by (intro conjI)
qed

lemma accept_sized_rejects: "rejects_unbuildable_kernels accept_sized"
  by (simp add: rejects_unbuildable_kernels_def accept_sized_def)

lemma example_block_built:
  "ResidualBlock_init accept_sized example_block_args () = Inr (example_block, ())"
  by code_simp

theorem residual_block_paths_witness:
  "ResidualBlock_init accept_sized example_block_args () = Inr (example_block, ()) \<and>
   rejects_unbuildable_kernels accept_sized \<and>
   length (filter is_conv (modules (main_path example_block))) =
     length (rb_channels example_block_args) \<and>
   modules (shortcut_path example_block) = [Conv2d 3 16 1 1 0 1 False] \<and>
   path_shape (modules (main_path example_block)) (3, 32, 32) = Some (16, 32, 32) \<and>
   path_shape (modules (shortcut_path example_block)) (3, 32, 32) = Some (16, 32, 32)"
  using residual_block_paths [OF example_block_built accept_sized_rejects, of 32 32]
    example_block_built accept_sized_rejects
  by (simp add: example_block_args_def)

section \<open>ResidualBottleneckBlock\<close>

text \<open>
  Claim C9. For every ResidualBottleneckBlock constructed successfully, the underlying
  ResidualBlock is built with channels \<open>[inner_channels[0]] + inner_channels +
  [in_out_channels]\<close>, kernel sizes \<open>[1] + inner_kernel_sizes + [1]\<close> and \<open>in_out_channels\<close>
  input channels; its main path ends in a 1x1 convolution with \<open>in_out_channels\<close> output
  channels, and its shortcut path is the empty container.
\<close>

theorem bottleneck_identity_shortcut:
  assumes "ResidualBottleneckBlock_init fw in_out inner_channels inner_kernel_sizes kwargs g
             = Inr (blk, g')"
  shows "\<exists>b c0. py_index inner_channels 0 = Inr c0 \<and>
           bottleneck_args in_out inner_channels inner_kernel_sizes kwargs = Inr b \<and>
           rb_in_channels b = in_out \<and>
           rb_channels b = [c0] @ inner_channels @ [in_out] \<and>
           rb_kernel_sizes b = [1] @ inner_kernel_sizes @ [1] \<and>
           ResidualBlock_init fw b g = Inr (blk, g') \<and>
           modules (shortcut_path blk) = [] \<and>
           (\<exists>c. last (modules (main_path blk)) = Conv2d c in_out 1 1 0 1 True)"
proof -
  from assms obtain b where b: "bottleneck_args in_out inner_channels inner_kernel_sizes kwargs = Inr b"
    and r: "ResidualBlock_init fw b g = Inr (blk, g')"
    by (auto simp: ResidualBottleneckBlock_init_def split: sum.splits)
  from b obtain c0 where c0: "py_index inner_channels 0 = Inr c0"
    and in_ch: "rb_in_channels b = in_out"
    and ch: "rb_channels b = [c0] @ inner_channels @ [in_out]"
    and ks: "rb_kernel_sizes b = [1] @ inner_kernel_sizes @ [1]"
    by (auto simp: bottleneck_args_def split: sum.splits)
  note i = ResidualBlock_init_Inr[OF r]
  from i(6) ch in_ch have sc: "modules (shortcut_path blk) = []" by simp
  let ?pairs = "zip (rb_channels b) (rb_kernel_sizes b)"
  from i(2) ch ks have len: "length inner_kernel_sizes = length inner_channels" by simp
  have pairs: "?pairs = (c0, 1) # zip inner_channels inner_kernel_sizes @ [(in_out, 1)]"
    unfolding ch ks using len by simp
  then have ne: "?pairs \<noteq> []" and l: "last ?pairs = (in_out, 1)" by simp_all
  from rb_main_layers_last[OF ne, of b
      "activation_layers (rb_activation_type b) (rb_activation_params b)" "rb_in_channels b"]
  have "\<exists>c. last (modules (main_path blk)) = Conv2d c in_out 1 1 0 1 True"
    unfolding i(5) l by (simp add: quotient_int_half_one)
  with c0 b in_ch ch ks r sc show ?thesis by blast
qed

lemma example_bottleneck_built:
  "ResidualBottleneckBlock_init accept_all 256 [64, 32] [3, 5] example_kwargs ()
     = Inr (example_bottleneck, ())"
  by code_simp

theorem bottleneck_identity_shortcut_witness:
  "ResidualBottleneckBlock_init accept_all 256 [64, 32] [3, 5] example_kwargs ()
     = Inr (example_bottleneck, ()) \<and>
   (\<exists>b c0. py_index [64, 32] 0 = Inr c0 \<and>
      bottleneck_args 256 [64, 32] [3, 5] example_kwargs = Inr b \<and>
      rb_in_channels b = 256 \<and>
      rb_channels b = [c0] @ [64, 32] @ [256] \<and>
      rb_kernel_sizes b = [1] @ [3, 5] @ [1] \<and>
      ResidualBlock_init accept_all b () = Inr (example_bottleneck, ()) \<and>
      modules (shortcut_path example_bottleneck) = [] \<and>
      (\<exists>c. last (modules (main_path example_bottleneck)) = Conv2d c 256 1 1 0 1 True))"
proof (rule conjI)
  show "ResidualBottleneckBlock_init accept_all 256 [64, 32] [3, 5] example_kwargs ()
     = Inr (example_bottleneck, ())"
    by (rule example_bottleneck_built)
  show "\<exists>b c0. py_index [64, 32] 0 = Inr c0 \<and>
      bottleneck_args 256 [64, 32] [3, 5] example_kwargs = Inr b \<and>
      rb_in_channels b = 256 \<and>
      rb_channels b = [c0] @ [64, 32] @ [256] \<and>
      rb_kernel_sizes b = [1] @ [3, 5] @ [1] \<and>
      ResidualBlock_init accept_all b () = Inr (example_bottleneck, ()) \<and>
      modules (shortcut_path example_bottleneck) = [] \<and>
      (\<exists>c. last (modules (main_path example_bottleneck)) = Conv2d c 256 1 1 0 1 True)"
    by (rule bottleneck_identity_shortcut [OF example_bottleneck_built])
qed

section \<open>Construction does not depend on the ambient state\<close>

lemma same_but_ambient_layers: "same_but_ambient st1 st2 \<Longrightarrow> layers st1 = layers st2"
proof -
  assume "same_but_ambient st1 st2"
  then have "layers (st1\<lparr>ambient := ambient st2\<rparr>) = layers st2"
    unfolding same_but_ambient_def by simp
  then show ?thesis by simp
qed

lemma same_but_ambient_sizes:
  assumes "same_but_ambient st1 st2"
  shows "in_h st1 = in_h st2" and "in_w st1 = in_w st2" and "pools_num st1 = pools_num st2"
proof -
  from assms have e: "st1\<lparr>ambient := ambient st2\<rparr> = st2" unfolding same_but_ambient_def .
  have "in_h (st1\<lparr>ambient := ambient st2\<rparr>) = in_h st1" by simp
  with e show "in_h st1 = in_h st2" by simp
  have "in_w (st1\<lparr>ambient := ambient st2\<rparr>) = in_w st1" by simp
  with e show "in_w st1 = in_w st2" by simp
  have "pools_num (st1\<lparr>ambient := ambient st2\<rparr>) = pools_num st1" by simp
  with e show "pools_num st1 = pools_num st2" by simp
qed

lemma same_but_ambient_curr:
  assumes "same_but_ambient st1 st2"
  shows "curr_channels st1 = curr_channels st2"
proof -
  from assms have e: "st1\<lparr>ambient := ambient st2\<rparr> = st2" unfolding same_but_ambient_def .
  have "curr_channels (st1\<lparr>ambient := ambient st2\<rparr>) = curr_channels st1" by simp
  with e show ?thesis by simp
qed

lemma same_but_ambient_grow:
  assumes "same_but_ambient st1 st2"
  shows "same_but_ambient (st1\<lparr>layers := layers st1 @ new, ambient := g1\<rparr>)
           (st2\<lparr>layers := layers st2 @ new, ambient := g2\<rparr>)"
proof -
  from assms have e: "st1\<lparr>ambient := ambient st2\<rparr> = st2" unfolding same_but_ambient_def .
  have "st1\<lparr>layers := layers st1 @ new, ambient := g2\<rparr>
      = (st1\<lparr>ambient := ambient st2\<rparr>)\<lparr>layers := layers st1 @ new, ambient := g2\<rparr>"
    by simp
  also have "\<dots> = st2\<lparr>layers := layers st2 @ new, ambient := g2\<rparr>"
    unfolding e using same_but_ambient_layers[OF assms] by simp
  finally show ?thesis by (simp add: same_but_ambient_def)
qed

lemma append_new_same:
  assumes "append_new fw1 l st1 = Inr st1'" and "append_new fw2 l st2 = Inr st2'"
    and "same_but_ambient st1 st2"
  shows "same_but_ambient st1' st2'"
proof -
  from assms(1) obtain g1 where 1: "st1' = st1\<lparr>layers := layers st1 @ [l], ambient := g1\<rparr>"
    by (auto simp: append_new_Inr_iff)
  from assms(2) obtain g2 where 2: "st2' = st2\<lparr>layers := layers st2 @ [l], ambient := g2\<rparr>"
    by (auto simp: append_new_Inr_iff)
  show ?thesis unfolding 1 2 using assms(3) by (rule same_but_ambient_grow)
qed

lemma append_module_same:
  assumes "append_module fw1 l st1 = Inr st1'" and "append_module fw2 l st2 = Inr st2'"
    and "same_but_ambient st1 st2"
  shows "same_but_ambient st1' st2'"
proof -
  from assms(1) obtain g1 where
    1: "st1' = st1\<lparr>layers := layers st1 @ [Layer l], ambient := g1\<rparr>"
    by (auto simp: append_module_def split: sum.splits)
  from assms(2) obtain g2 where
    2: "st2' = st2\<lparr>layers := layers st2 @ [Layer l], ambient := g2\<rparr>"
    by (auto simp: append_module_def split: sum.splits)
  show ?thesis unfolding 1 2 using assms(3) by (rule same_but_ambient_grow)
qed

lemma update_sizes_same:
  assumes "update_sizes p st1 = Inr st1'" and "update_sizes p st2 = Inr st2'"
    and "same_but_ambient st1 st2"
  shows "same_but_ambient st1' st2'"
proof -
  from assms(3) have e: "st1\<lparr>ambient := ambient st2\<rparr> = st2" unfolding same_but_ambient_def .
  note s = same_but_ambient_sizes[OF assms(3)]
  from assms(1) have 1: "st1' = st1\<lparr>in_h := size_update p (in_h st1),
      in_w := size_update p (in_w st1)\<rparr>" by (simp add: update_sizes_Inr_iff)
  from assms(2) have 2: "st2' = st2\<lparr>in_h := size_update p (in_h st2),
      in_w := size_update p (in_w st2)\<rparr>" by (simp add: update_sizes_Inr_iff)
  have "st1'\<lparr>ambient := ambient st2'\<rparr>
      = (st1\<lparr>ambient := ambient st2\<rparr>)\<lparr>in_h := size_update p (in_h st2),
          in_w := size_update p (in_w st2)\<rparr>"
    unfolding 1 2 by (simp add: s)
  then show ?thesis unfolding e 2 same_but_ambient_def by simp
qed

lemma ResidualBlock_init_same:
  assumes "ResidualBlock_init fw1 b g1 = Inr (blk1, g1')"
    and "ResidualBlock_init fw2 b g2 = Inr (blk2, g2')"
  shows "blk1 = blk2"
proof -
  note i = ResidualBlock_init_Inr[OF assms(1)] and j = ResidualBlock_init_Inr[OF assms(2)]
  from i(5) j(5) have "modules (main_path blk1) = modules (main_path blk2)" by simp
  then have m: "main_path blk1 = main_path blk2" by (rule sequential.expand)
  from i(6) j(6) have "modules (shortcut_path blk1) = modules (shortcut_path blk2)" by simp
  then have s: "shortcut_path blk1 = shortcut_path blk2" by (rule sequential.expand)
  from m s show ?thesis by simp
qed

lemma append_block_same:
  assumes "append_block fw1 c cs ks bn dr st1 = Inr st1'"
    and "append_block fw2 c cs ks bn dr st2 = Inr st2'"
    and "same_but_ambient st1 st2"
  shows "same_but_ambient st1' st2'"
proof -
  let ?b = "\<lparr>rb_in_channels = c, rb_channels = cs, rb_kernel_sizes = ks,
              rb_batchnorm = bn, rb_dropout = dr,
              rb_activation_type = ''relu'', rb_activation_params = []\<rparr>"
  from assms(1) obtain blk1 g1 where b1: "ResidualBlock_init fw1 ?b (ambient st1) = Inr (blk1, g1)"
    and 1: "st1' = st1\<lparr>layers := layers st1 @ [Block blk1], ambient := g1\<rparr>"
    by (auto simp: append_block_def split: sum.splits)
  from assms(2) obtain blk2 g2 where b2: "ResidualBlock_init fw2 ?b (ambient st2) = Inr (blk2, g2)"
    and 2: "st2' = st2\<lparr>layers := layers st2 @ [Block blk2], ambient := g2\<rparr>"
    by (auto simp: append_block_def split: sum.splits)
  from b1 b2 have "blk1 = blk2" by (rule ResidualBlock_init_same)
  then show ?thesis unfolding 1 2 using assms(3) by (simp add: same_but_ambient_grow)
qed

lemma same_but_ambient_refl_init:
  "same_but_ambient (\<lparr>layers = ls, ambient = g1, \<dots> = z\<rparr>) (\<lparr>layers = ls, ambient = g2, \<dots> = z\<rparr>)"
  by (simp add: same_but_ambient_def)

lemma same_but_ambient_pools:
  assumes "same_but_ambient st1 st2"
  shows "same_but_ambient (st1\<lparr>pools_num := pools_num st1 + 1\<rparr>)
           (st2\<lparr>pools_num := pools_num st2 + 1\<rparr>)"
proof -
  from assms have e: "st1\<lparr>ambient := ambient st2\<rparr> = st2" unfolding same_but_ambient_def .
  have "(st1\<lparr>pools_num := pools_num st1 + 1\<rparr>)\<lparr>ambient := ambient st2\<rparr>
      = (st1\<lparr>ambient := ambient st2\<rparr>)\<lparr>pools_num := pools_num st2 + 1\<rparr>"
    by (simp add: same_but_ambient_sizes(3)[OF assms])
  then show ?thesis unfolding e same_but_ambient_def by simp
qed

lemma same_but_ambient_curr_update:
  assumes "same_but_ambient st1 st2"
  shows "same_but_ambient (st1\<lparr>curr_channels := c\<rparr>) (st2\<lparr>curr_channels := c\<rparr>)"
proof -
  from assms have e: "st1\<lparr>ambient := ambient st2\<rparr> = st2" unfolding same_but_ambient_def .
  have "(st1\<lparr>curr_channels := c\<rparr>)\<lparr>ambient := ambient st2\<rparr>
      = (st1\<lparr>ambient := ambient st2\<rparr>)\<lparr>curr_channels := c\<rparr>"
    by simp
  then show ?thesis unfolding e same_but_ambient_def by simp
qed

lemma append_activation_same:
  assumes "append_activation fw1 t ps st1 = Inr st1'"
    and "append_activation fw2 t ps st2 = Inr st2'"
    and "same_but_ambient st1 st2"
  shows "same_but_ambient st1' st2'"
proof -
  consider "t = ''relu''" | "t = ''lrelu''" "ps = []" | "t = ''lrelu''" "ps \<noteq> []"
    | "t \<noteq> ''relu''" "t \<noteq> ''lrelu''"
    by blast
  then show ?thesis
  proof cases
    case 1
    with assms(1,2) have "append_new fw1 ReLU st1 = Inr st1'" "append_new fw2 ReLU st2 = Inr st2'"
      by (simp_all add: append_activation_def)
    then show ?thesis using assms(3) by (rule append_new_same)
  next
    case 2
    with assms(1,2) have "append_new fw1 (LeakyReLU None) st1 = Inr st1'"
      "append_new fw2 (LeakyReLU None) st2 = Inr st2'"
      by (simp_all add: append_activation_def)
    then show ?thesis using assms(3) by (rule append_new_same)
  next
    case 3
    with assms(1) obtain s where s: "dict_get ps ''negative_slope'' = Inr s"
      by (cases "dict_get ps ''negative_slope''") (simp_all add: append_activation_def)
    with 3 assms(1,2) have "append_new fw1 (LeakyReLU (Some s)) st1 = Inr st1'"
      "append_new fw2 (LeakyReLU (Some s)) st2 = Inr st2'"
      by (simp_all add: append_activation_def)
    then show ?thesis using assms(3) by (rule append_new_same)
  next
    case 4
    with assms show ?thesis by (simp add: append_activation_def)
  qed
qed

lemma fe_activation_same:
  assumes "fe_activation fw1 self st1 = Inr st1'" and "fe_activation fw2 self st2 = Inr st2'"
    and "same_but_ambient st1 st2"
  shows "same_but_ambient st1' st2'"
proof -
  consider "activation_type self = ''relu''" | "activation_type self = ''lrelu''"
    | "activation_type self \<noteq> ''relu''" "activation_type self \<noteq> ''lrelu''"
    by blast
  then show ?thesis
  proof cases
    case 1
    with assms(1,2) have "append_new fw1 ReLU st1 = Inr st1'" "append_new fw2 ReLU st2 = Inr st2'"
      by (simp_all add: fe_activation_def)
    then show ?thesis using assms(3) by (rule append_new_same)
  next
    case 2
    with assms(1) obtain s where s: "dict_get (activation_params self) ''negative_slope'' = Inr s"
      by (cases "dict_get (activation_params self) ''negative_slope''")
         (simp_all add: fe_activation_def)
    with 2 assms(1,2) have "append_new fw1 (LeakyReLU (Some s)) st1 = Inr st1'"
      "append_new fw2 (LeakyReLU (Some s)) st2 = Inr st2'"
      by (simp_all add: fe_activation_def)
    then show ?thesis using assms(3) by (rule append_new_same)
  next
    case 3
    with assms show ?thesis by (simp add: fe_activation_def)
  qed
qed

lemma pooling_append_same:
  assumes "(if t = ''max'' then append_new fw1 (MaxPool2d k s p d) st1
            else if t = ''avg'' then append_new fw1 (AvgPool2d k s p) st1 else Inr st1) = Inr st1'"
    and "(if t = ''max'' then append_new fw2 (MaxPool2d k s p d) st2
          else if t = ''avg'' then append_new fw2 (AvgPool2d k s p) st2 else Inr st2) = Inr st2'"
    and "same_but_ambient st1 st2"
  shows "same_but_ambient st1' st2'"
proof -
  consider "t = ''max''" | "t \<noteq> ''max''" "t = ''avg''" | "t \<noteq> ''max''" "t \<noteq> ''avg''" by blast
  then show ?thesis
  proof cases
    case 1
    with assms(1,2) have "append_new fw1 (MaxPool2d k s p d) st1 = Inr st1'"
      "append_new fw2 (MaxPool2d k s p d) st2 = Inr st2'" by simp_all
    then show ?thesis using assms(3) by (rule append_new_same)
  next
    case 2
    with assms(1,2) have "append_new fw1 (AvgPool2d k s p) st1 = Inr st1'"
      "append_new fw2 (AvgPool2d k s p) st2 = Inr st2'" by simp_all
    then show ?thesis using assms(3) by (rule append_new_same)
  next
    case 3
    with assms show ?thesis by simp
  qed
qed

lemma fe_pooling_same:
  assumes "fe_pooling fw1 self pp idx st1 = Inr st1'"
    and "fe_pooling fw2 self pp idx st2 = Inr st2'"
    and "same_but_ambient st1 st2"
  shows "same_but_ambient st1' st2'"
proof (cases "int idx mod pool_every self = 0")
  case False
  with assms show ?thesis by (simp add: fe_pooling_def split: if_splits)
next
  case True
  from assms(1) have nz: "pool_every self \<noteq> 0" by (simp add: fe_pooling_def split: if_splits)
  from assms(1) True nz obtain a1 b1 where
    a1: "(if pooling_type self = ''max'' then
            append_new fw1 (MaxPool2d (kernel pp) (stride pp) (padding pp) (dilation pp)) st1
          else if pooling_type self = ''avg'' then
            append_new fw1 (AvgPool2d (kernel pp) (stride pp) (padding pp)) st1
          else Inr st1) = Inr a1"
    and b1: "update_sizes pp a1 = Inr b1" and c1: "st1' = b1\<lparr>pools_num := pools_num b1 + 1\<rparr>"
    by (simp add: fe_pooling_def split: sum.splits)
  from assms(2) True nz obtain a2 b2 where
    a2: "(if pooling_type self = ''max'' then
            append_new fw2 (MaxPool2d (kernel pp) (stride pp) (padding pp) (dilation pp)) st2
          else if pooling_type self = ''avg'' then
            append_new fw2 (AvgPool2d (kernel pp) (stride pp) (padding pp)) st2
          else Inr st2) = Inr a2"
    and b2: "update_sizes pp a2 = Inr b2" and c2: "st2' = b2\<lparr>pools_num := pools_num b2 + 1\<rparr>"
    by (simp add: fe_pooling_def split: sum.splits)
  from a1 a2 assms(3) have "same_but_ambient a1 a2" by (rule pooling_append_same)
  with b1 b2 have "same_but_ambient b1 b2" by (rule update_sizes_same)
  then show ?thesis unfolding c1 c2 by (rule same_but_ambient_pools)
qed

lemma fe_body_same:
  assumes "fe_body fw1 self fl cp pp idx st1 = Inr st1'"
    and "fe_body fw2 self fl cp pp idx st2 = Inr st2'"
    and "same_but_ambient st1 st2"
  shows "same_but_ambient st1' st2'"
proof -
  from assms(1) obtain i out where i: "py_index fl (int idx - 1) = Inr i"
    and out: "py_index fl (int idx) = Inr out"
    by (auto simp: fe_body_def split: sum.splits)
  let ?c = "Conv2d i out (kernel cp) (stride cp) (padding cp) (dilation cp) True"
  from assms(1) i out obtain a1 b1 c1 where a1: "append_new fw1 ?c st1 = Inr a1"
    and b1: "update_sizes cp a1 = Inr b1" and c1: "fe_activation fw1 self b1 = Inr c1"
    and d1: "fe_pooling fw1 self pp idx c1 = Inr st1'"
    by (simp add: fe_body_def split: sum.splits)
  from assms(2) i out obtain a2 b2 c2 where a2: "append_new fw2 ?c st2 = Inr a2"
    and b2: "update_sizes cp a2 = Inr b2" and c2: "fe_activation fw2 self b2 = Inr c2"
    and d2: "fe_pooling fw2 self pp idx c2 = Inr st2'"
    by (simp add: fe_body_def split: sum.splits)
  from a1 a2 assms(3) have "same_but_ambient a1 a2" by (rule append_new_same)
  with b1 b2 have "same_but_ambient b1 b2" by (rule update_sizes_same)
  with c1 c2 have "same_but_ambient c1 c2" by (rule fe_activation_same)
  with d1 d2 show ?thesis by (rule fe_pooling_same)
qed

lemma fe_loop_same:
  assumes "fe_loop fw1 self fl cp pp idxs st1 = Inr st1'"
    and "fe_loop fw2 self fl cp pp idxs st2 = Inr st2'"
    and "same_but_ambient st1 st2"
  shows "same_but_ambient st1' st2'"
  using assms
proof (induction idxs arbitrary: st1 st2)
  case Nil
  then show ?case by simp
next
  case (Cons idx idxs)
  from Cons.prems(1) obtain a1 where a1: "fe_body fw1 self fl cp pp idx st1 = Inr a1"
    and l1: "fe_loop fw1 self fl cp pp idxs a1 = Inr st1'" by (rule fe_loop_Cons_Inr)
  from Cons.prems(2) obtain a2 where a2: "fe_body fw2 self fl cp pp idx st2 = Inr a2"
    and l2: "fe_loop fw2 self fl cp pp idxs a2 = Inr st2'" by (rule fe_loop_Cons_Inr)
  from a1 a2 Cons.prems(3) have "same_but_ambient a1 a2" by (rule fe_body_same)
  with l1 l2 show ?case by (rule Cons.IH)
qed

lemma fe_finish_same:
  assumes "fe_finish self st1 = Inr (fe1, g1)" and "fe_finish self st2 = Inr (fe2, g2)"
    and "same_but_ambient st1 st2"
  shows "fe1 = fe2"
  using assms(1,2) same_but_ambient_layers[OF assms(3)] same_but_ambient_sizes[OF assms(3)]
  by (auto simp: fe_finish_def split: sum.splits)

lemma ConvClassifier_make_feature_extractor_same:
  fixes fw1 fw2 :: "'g framework"
  assumes "ConvClassifier_make_feature_extractor fw1 self g1 = Inr (fe1, h1)"
    and "ConvClassifier_make_feature_extractor fw2 self g2 = Inr (fe2, h2)"
  shows "fe1 = fe2"
proof -
  from assms(1) obtain C H W cp pp st1 where s: "in_size self = [C, H, W]"
    and cp: "read_conv_params (conv_params self) = Inr cp"
    and pp: "read_pooling_params (pooling_params self) = Inr pp"
    and l1: "fe_loop fw1 self (C # channels self) cp pp [Suc 0 ..< Suc (length (channels self))]
          \<lparr>layers = [], ambient = g1, in_h = H, in_w = W, pools_num = 0\<rparr> = Inr st1"
    and f1: "fe_finish self st1 = Inr (fe1, h1)"
    by (rule make_feature_extractor_loop)
  from assms(2) obtain C' H' W' cp' pp' st2 where s': "in_size self = [C', H', W']"
    and cp': "read_conv_params (conv_params self) = Inr cp'"
    and pp': "read_pooling_params (pooling_params self) = Inr pp'"
    and l2': "fe_loop fw2 self (C' # channels self) cp' pp' [Suc 0 ..< Suc (length (channels self))]
          \<lparr>layers = [], ambient = g2, in_h = H', in_w = W', pools_num = 0\<rparr> = Inr st2"
    and f2: "fe_finish self st2 = Inr (fe2, h2)"
    by (rule make_feature_extractor_loop)
  from s s' cp cp' pp pp' have eq: "C' = C" "H' = H" "W' = W" "cp' = cp" "pp' = pp" by simp_all
  note l2 = l2'[unfolded eq]
  have "same_but_ambient \<lparr>layers = [], ambient = g1, in_h = H, in_w = W, pools_num = 0\<rparr>
      \<lparr>layers = ([]::layer list), ambient = g2, in_h = H, in_w = W, pools_num = 0\<rparr>"
    by (rule same_but_ambient_refl_init)
  with l1 l2 have "same_but_ambient st1 st2" by (rule fe_loop_same)
  with f1 f2 show ?thesis by (rule fe_finish_same)
qed

lemma cls_loop_same:
  assumes "cls_loop fw1 self hs d st1 = Inr (d1, st1')"
    and "cls_loop fw2 self hs d st2 = Inr (d2, st2')"
    and "same_but_ambient st1 st2"
  shows "d1 = d2 \<and> same_but_ambient st1' st2'"
  using assms
proof (induction hs arbitrary: d st1 st2)
  case Nil
  then show ?case by simp
next
  case (Cons h hs)
  from Cons.prems(1) obtain a1 b1 where a1: "append_new fw1 (Linear d h) st1 = Inr a1"
    and b1: "append_activation fw1 (activation_type self) (activation_params self) a1 = Inr b1"
    and l1: "cls_loop fw1 self hs h b1 = Inr (d1, st1')" by (rule cls_loop_Cons_Inr)
  from Cons.prems(2) obtain a2 b2 where a2: "append_new fw2 (Linear d h) st2 = Inr a2"
    and b2: "append_activation fw2 (activation_type self) (activation_params self) a2 = Inr b2"
    and l2: "cls_loop fw2 self hs h b2 = Inr (d2, st2')" by (rule cls_loop_Cons_Inr)
  from a1 a2 Cons.prems(3) have "same_but_ambient a1 a2" by (rule append_new_same)
  with b1 b2 have "same_but_ambient b1 b2" by (rule append_activation_same)
  with l1 l2 show ?case by (rule Cons.IH)
qed

lemma make_classifier_same:
  fixes fw1 fw2 :: "'g framework"
  assumes "make_classifier fw1 self n g1 = Inr (cl1, h1)"
    and "make_classifier fw2 self n g2 = Inr (cl2, h2)"
  shows "cl1 = cl2"
proof -
  from assms(1) obtain d1 a1 b1 where
    l1: "cls_loop fw1 self (hidden_dims self) n \<lparr>layers = [], ambient = g1\<rparr> = Inr (d1, a1)"
    and f1: "append_new fw1 (Linear d1 (out_classes self)) a1 = Inr b1"
    and c1: "cl1 = Sequential (layers b1)"
    by (auto simp: make_classifier_def split: sum.splits prod.splits)
  from assms(2) obtain d2 a2 b2 where
    l2: "cls_loop fw2 self (hidden_dims self) n \<lparr>layers = [], ambient = g2\<rparr> = Inr (d2, a2)"
    and f2: "append_new fw2 (Linear d2 (out_classes self)) a2 = Inr b2"
    and c2: "cl2 = Sequential (layers b2)"
    by (auto simp: make_classifier_def split: sum.splits prod.splits)
  have "same_but_ambient \<lparr>layers = ([]::layer list), ambient = g1\<rparr> \<lparr>layers = [], ambient = g2\<rparr>"
    by (rule same_but_ambient_refl_init)
  from cls_loop_same[OF l1 l2 this] have d: "d1 = d2" and s: "same_but_ambient a1 a2" by simp_all
  from f1 f2[folded d] s have "same_but_ambient b1 b2" by (rule append_new_same)
  then show ?thesis unfolding c1 c2 by (simp add: same_but_ambient_layers)
qed

lemma init_with_same:
  fixes fw1 fw2 :: "'g framework"
  assumes "ConvClassifier_init_with mk1 fw1 a g1 = Inr (m1, h1)"
    and "ConvClassifier_init_with mk2 fw2 a g2 = Inr (m2, h2)"
    and "\<And>fe1 fe2 k1 k2. mk1 fw1 a g1 = Inr (fe1, k1) \<Longrightarrow> mk2 fw2 a g2 = Inr (fe2, k2)
           \<Longrightarrow> fe1 = fe2"
  shows "m1 = m2"
proof -
  from assms(1) obtain fe1 k1 cl1 where mk1: "mk1 fw1 a g1 = Inr (fe1, k1)"
    and c1: "make_classifier fw1 a (fe_features_num fe1) k1 = Inr (cl1, h1)"
    and m1: "m1 = \<lparr>args = a, self_pools_num = fe_pools_num fe1,
              features_num = fe_features_num fe1,
              feature_extractor = fe_seq fe1, classifier = cl1\<rparr>"
    by (auto elim: init_with_Inr)
  from assms(2) obtain fe2 k2 cl2 where mk2: "mk2 fw2 a g2 = Inr (fe2, k2)"
    and c2: "make_classifier fw2 a (fe_features_num fe2) k2 = Inr (cl2, h2)"
    and m2: "m2 = \<lparr>args = a, self_pools_num = fe_pools_num fe2,
              features_num = fe_features_num fe2,
              feature_extractor = fe_seq fe2, classifier = cl2\<rparr>"
    by (auto elim: init_with_Inr)
  from mk1 mk2 have fe: "fe1 = fe2" by (rule assms(3))
  from c1 c2[folded fe] have "cl1 = cl2" by (rule make_classifier_same)
  with fe show ?thesis unfolding m1 m2 by simp
qed

lemma resnet_body_same:
  assumes "resnet_body fw1 self pp index st1 = Inr st1'"
    and "resnet_body fw2 self pp index st2 = Inr st2'"
    and "same_but_ambient st1 st2"
  shows "same_but_ambient st1' st2'"
proof -
  let ?cs = "py_slice (channels self) (pool_every self * int index)
               (pool_every self * (int index + 1))"
  let ?ks = "replicate (nat (pool_every self)) 3"
  note cc = same_but_ambient_curr[OF assms(3)]
  from assms(1) obtain a1 b1 c1 c where
    a1: "append_block fw1 (curr_channels st1) ?cs ?ks (batchnorm self) (dropout self) st1 = Inr a1"
    and b1: "(if pooling_type self = ''max'' then
              append_module fw1 (MaxPool2d (kernel pp) (stride pp) (padding pp) (dilation pp)) a1
            else if pooling_type self = ''avg'' then
              append_module fw1 (AvgPool2d (kernel pp) (stride pp) (padding pp)) a1
            else Inr a1) = Inr b1"
    and c1: "update_sizes pp b1 = Inr c1"
    and ix: "py_index (channels self) (pool_every self * (int index + 1) - 1) = Inr c"
    and r1: "st1' = c1\<lparr>pools_num := pools_num c1 + 1, curr_channels := c\<rparr>"
    by (auto simp: resnet_body_def Let_def split: sum.splits)
  from assms(2) ix obtain a2 b2 c2 where
    a2: "append_block fw2 (curr_channels st2) ?cs ?ks (batchnorm self) (dropout self) st2 = Inr a2"
    and b2: "(if pooling_type self = ''max'' then
              append_module fw2 (MaxPool2d (kernel pp) (stride pp) (padding pp) (dilation pp)) a2
            else if pooling_type self = ''avg'' then
              append_module fw2 (AvgPool2d (kernel pp) (stride pp) (padding pp)) a2
            else Inr a2) = Inr b2"
    and c2: "update_sizes pp b2 = Inr c2"
    and r2: "st2' = c2\<lparr>pools_num := pools_num c2 + 1, curr_channels := c\<rparr>"
    by (auto simp: resnet_body_def Let_def split: sum.splits)
  from a1 a2[folded cc] assms(3) have sa: "same_but_ambient a1 a2" by (rule append_block_same)
  have sb: "same_but_ambient b1 b2"
  proof -
    consider "pooling_type self = ''max''" | "pooling_type self \<noteq> ''max''" "pooling_type self = ''avg''"
      | "pooling_type self \<noteq> ''max''" "pooling_type self \<noteq> ''avg''" by blast
    then show ?thesis
    proof cases
      case 1
      with b1 b2 have
        "append_module fw1 (MaxPool2d (kernel pp) (stride pp) (padding pp) (dilation pp)) a1 = Inr b1"
        "append_module fw2 (MaxPool2d (kernel pp) (stride pp) (padding pp) (dilation pp)) a2 = Inr b2"
        by simp_all
      then show ?thesis using sa by (rule append_module_same)
    next
      case 2
      with b1 b2 have
        "append_module fw1 (AvgPool2d (kernel pp) (stride pp) (padding pp)) a1 = Inr b1"
        "append_module fw2 (AvgPool2d (kernel pp) (stride pp) (padding pp)) a2 = Inr b2"
        by simp_all
      then show ?thesis using sa by (rule append_module_same)
    next
      case 3
      with b1 b2 sa show ?thesis by simp
    qed
  qed
  from c1 c2 sb have "same_but_ambient c1 c2" by (rule update_sizes_same)
  then have "same_but_ambient (c1\<lparr>pools_num := pools_num c1 + 1\<rparr>)
      (c2\<lparr>pools_num := pools_num c2 + 1\<rparr>)" by (rule same_but_ambient_pools)
  then have "same_but_ambient (c1\<lparr>pools_num := pools_num c1 + 1\<rparr>\<lparr>curr_channels := c\<rparr>)
      (c2\<lparr>pools_num := pools_num c2 + 1\<rparr>\<lparr>curr_channels := c\<rparr>)"
    by (rule same_but_ambient_curr_update)
  then show ?thesis unfolding r1 r2 by simp
qed

lemma resnet_loop_same:
  assumes "resnet_loop fw1 self pp idxs st1 = Inr st1'"
    and "resnet_loop fw2 self pp idxs st2 = Inr st2'"
    and "same_but_ambient st1 st2"
  shows "same_but_ambient st1' st2'"
  using assms
proof (induction idxs arbitrary: st1 st2)
  case Nil
  then show ?case by simp
next
  case (Cons idx idxs)
  from Cons.prems(1) obtain a1 where a1: "resnet_body fw1 self pp idx st1 = Inr a1"
    and l1: "resnet_loop fw1 self pp idxs a1 = Inr st1'" by (auto split: sum.splits)
  from Cons.prems(2) obtain a2 where a2: "resnet_body fw2 self pp idx st2 = Inr a2"
    and l2: "resnet_loop fw2 self pp idxs a2 = Inr st2'" by (auto split: sum.splits)
  from a1 a2 Cons.prems(3) have "same_but_ambient a1 a2" by (rule resnet_body_same)
  with l1 l2 show ?case by (rule Cons.IH)
qed

lemma ResNet_make_feature_extractor_stages:
  assumes "ResNetClassifier_make_feature_extractor fw self g = Inr (fe, g')"
  obtains C H W pp st st' where "in_size self = [C, H, W]"
    and "read_pooling_params (pooling_params self) = Inr pp"
    and "pool_every self \<noteq> 0"
    and "resnet_loop fw self pp
           [0 ..< nat (quotient_int (int (length (channels self))) (pool_every self))]
           \<lparr>layers = [], ambient = g, in_h = H, in_w = W, pools_num = 0,
            curr_channels = C\<rparr> = Inr st"
    and "(if int (length (channels self)) mod pool_every self \<noteq> 0 then
            append_block fw (curr_channels st)
              (py_slice_from (channels self)
                 (int (length (channels self)) - int (length (channels self)) mod pool_every self))
              (replicate (nat (int (length (channels self)) mod pool_every self)) 3)
              (batchnorm self) (dropout self) st
          else Inr st) = Inr st'"
    and "fe_finish self st' = Inr (fe, g')"
proof -
  from assms obtain C H W where s: "in_size self = [C, H, W]"
    by (auto simp: ResNetClassifier_make_feature_extractor_def split: list.splits)
  from assms s obtain pp where pp: "read_pooling_params (pooling_params self) = Inr pp"
    by (auto simp: ResNetClassifier_make_feature_extractor_def split: sum.splits)
  from assms s pp have nz: "pool_every self \<noteq> 0"
    by (auto simp: ResNetClassifier_make_feature_extractor_def Let_def split: if_splits)
  from assms s pp nz obtain q where
    "int_truediv (int (length (channels self))) (pool_every self) = Inr q"
    by (cases "int_truediv (int (length (channels self))) (pool_every self)")
       (simp_all add: ResNetClassifier_make_feature_extractor_def Let_def)
  then have td: "int_truediv (int (length (channels self))) (pool_every self)
      = Inr (quotient_int (int (length (channels self))) (pool_every self))"
    by (simp add: int_truediv_Inr_iff)
  from assms s pp nz td obtain st where
    l: "resnet_loop fw self pp
           [0 ..< nat (quotient_int (int (length (channels self))) (pool_every self))]
           \<lparr>layers = [], ambient = g, in_h = H, in_w = W, pools_num = 0,
            curr_channels = C\<rparr> = Inr st"
    by (cases "resnet_loop fw self pp
           [0 ..< nat (quotient_int (int (length (channels self))) (pool_every self))]
           \<lparr>layers = [], ambient = g, in_h = H, in_w = W, pools_num = 0,
            curr_channels = C\<rparr>")
       (simp_all add: ResNetClassifier_make_feature_extractor_def Let_def)
  from assms s pp nz td l obtain st' where
    r: "(if int (length (channels self)) mod pool_every self \<noteq> 0 then
            append_block fw (curr_channels st)
              (py_slice_from (channels self)
                 (int (length (channels self)) - int (length (channels self)) mod pool_every self))
              (replicate (nat (int (length (channels self)) mod pool_every self)) 3)
              (batchnorm self) (dropout self) st
          else Inr st) = Inr st'"
    and f: "fe_finish self st' = Inr (fe, g')"
    by (simp add: ResNetClassifier_make_feature_extractor_def Let_def split: sum.splits)
  from s pp nz l r f show thesis by (rule that)
qed

lemma ResNet_make_feature_extractor_same:
  fixes fw1 fw2 :: "'g framework"
  assumes "ResNetClassifier_make_feature_extractor fw1 self g1 = Inr (fe1, h1)"
    and "ResNetClassifier_make_feature_extractor fw2 self g2 = Inr (fe2, h2)"
  shows "fe1 = fe2"
proof -
  from assms(1) obtain C H W pp a1 b1 where s: "in_size self = [C, H, W]"
    and pp: "read_pooling_params (pooling_params self) = Inr pp"
    and l1: "resnet_loop fw1 self pp
           [0 ..< nat (quotient_int (int (length (channels self))) (pool_every self))]
           \<lparr>layers = [], ambient = g1, in_h = H, in_w = W, pools_num = 0,
            curr_channels = C\<rparr> = Inr a1"
    and r1: "(if int (length (channels self)) mod pool_every self \<noteq> 0 then
            append_block fw1 (curr_channels a1)
              (py_slice_from (channels self)
                 (int (length (channels self)) - int (length (channels self)) mod pool_every self))
              (replicate (nat (int (length (channels self)) mod pool_every self)) 3)
              (batchnorm self) (dropout self) a1
          else Inr a1) = Inr b1"
    and f1: "fe_finish self b1 = Inr (fe1, h1)"
    by (rule ResNet_make_feature_extractor_stages)
  from assms(2) obtain C' H' W' pp' a2 b2 where s': "in_size self = [C', H', W']"
    and pp': "read_pooling_params (pooling_params self) = Inr pp'"
    and l2': "resnet_loop fw2 self pp'
           [0 ..< nat (quotient_int (int (length (channels self))) (pool_every self))]
           \<lparr>layers = [], ambient = g2, in_h = H', in_w = W', pools_num = 0,
            curr_channels = C'\<rparr> = Inr a2"
    and r2: "(if int (length (channels self)) mod pool_every self \<noteq> 0 then
            append_block fw2 (curr_channels a2)
              (py_slice_from (channels self)
                 (int (length (channels self)) - int (length (channels self)) mod pool_every self))
              (replicate (nat (int (length (channels self)) mod pool_every self)) 3)
              (batchnorm self) (dropout self) a2
          else Inr a2) = Inr b2"
    and f2: "fe_finish self b2 = Inr (fe2, h2)"
    by (rule ResNet_make_feature_extractor_stages)
  from s s' pp pp' have eq: "C' = C" "H' = H" "W' = W" "pp' = pp" by simp_all
  note l2 = l2'[unfolded eq]
  have "same_but_ambient
      \<lparr>layers = ([]::module list), ambient = g1, in_h = H, in_w = W, pools_num = 0,
       curr_channels = C\<rparr>
      \<lparr>layers = [], ambient = g2, in_h = H, in_w = W, pools_num = 0, curr_channels = C\<rparr>"
    by (rule same_but_ambient_refl_init)
  with l1 l2 have sa: "same_but_ambient a1 a2" by (rule resnet_loop_same)
  have "same_but_ambient b1 b2"
  proof (cases "int (length (channels self)) mod pool_every self \<noteq> 0")
    case True
    with r1 r2 same_but_ambient_curr[OF sa] sa show ?thesis
      by (auto intro: append_block_same)
  next
    case False
    with r1 r2 sa show ?thesis by simp
  qed
  with f1 f2 show ?thesis by (rule fe_finish_same)
qed

subsection \<open>Determinism\<close>

text \<open>
  Claim C5. Two constructions of a ConvClassifier, or of a ResNetClassifier, from equal
  arguments build the same object: the same layers with the same hyperparameters in the
  same order, the same stored attributes, and \<^verbatim>\<open>_n_features()\<close> returns the same value.
  The two runs may start in different ambient states (the random generator) and even use
  different frameworks; only both must complete.
\<close>

theorem construction_deterministic:
  fixes fw1 fw2 :: "'g framework"
  shows "(ConvClassifier_init fw1 a g1 = Inr (m1, h1) \<and>
          ConvClassifier_init fw2 a g2 = Inr (m2, h2) \<longrightarrow>
            m1 = m2 \<and> fst (n_features m1 k1) = fst (n_features m2 k2)) \<and>
         (ResNetClassifier_init fw1 r g1 = Inr (n1, j1) \<and>
          ResNetClassifier_init fw2 r g2 = Inr (n2, j2) \<longrightarrow>
            n1 = n2 \<and> fst (n_features n1 k1) = fst (n_features n2 k2))"
proof (intro conjI impI)
  assume c: "ConvClassifier_init fw1 a g1 = Inr (m1, h1) \<and>
          ConvClassifier_init fw2 a g2 = Inr (m2, h2)"
  then have "ConvClassifier_init_with ConvClassifier_make_feature_extractor fw1 a g1 = Inr (m1, h1)"
    "ConvClassifier_init_with ConvClassifier_make_feature_extractor fw2 a g2 = Inr (m2, h2)"
    by (simp_all add: ConvClassifier_init_def)
  then show m: "m1 = m2"
    by (rule init_with_same) (rule ConvClassifier_make_feature_extractor_same)
  show "fst (n_features m1 k1) = fst (n_features m2 k2)"
    unfolding m by (simp add: n_features_def)
next
  assume c: "ResNetClassifier_init fw1 r g1 = Inr (n1, j1) \<and>
          ResNetClassifier_init fw2 r g2 = Inr (n2, j2)"
  then have "ConvClassifier_init_with ResNetClassifier_make_feature_extractor fw1 r g1 = Inr (n1, j1)"
    "ConvClassifier_init_with ResNetClassifier_make_feature_extractor fw2 r g2 = Inr (n2, j2)"
    by (simp_all add: ResNetClassifier_init_def)
  then show n: "n1 = n2"
    by (rule init_with_same) (rule ResNet_make_feature_extractor_same)
  show "fst (n_features n1 k1) = fst (n_features n2 k2)"
    unfolding n by (simp add: n_features_def)
qed

lemma example_counting_runs:
  "ConvClassifier_init counting example_args 0 = Inr (example_classifier, 10)"
  "ConvClassifier_init counting example_args 7 = Inr (example_classifier, 17)"
  "ResNetClassifier_init counting example_resnet_args 0 = Inr (example_resnet, 12)"
  "ResNetClassifier_init counting example_resnet_args 7 = Inr (example_resnet, 19)"
  by code_simp+

theorem construction_deterministic_witness:
  "ConvClassifier_init counting example_args 0 = Inr (example_classifier, 10) \<and>
   ConvClassifier_init counting example_args 7 = Inr (example_classifier, 17) \<and>
   ResNetClassifier_init counting example_resnet_args 0 = Inr (example_resnet, 12) \<and>
   ResNetClassifier_init counting example_resnet_args 7 = Inr (example_resnet, 19) \<and>
   fst (n_features example_classifier (0::nat)) = fst (n_features example_classifier (7::nat)) \<and>
   fst (n_features example_resnet (0::nat)) = fst (n_features example_resnet (7::nat))"
  using construction_deterministic [of counting example_args 0 example_classifier 10
      counting 7 example_classifier 17 0 7 example_resnet_args example_resnet 12
      example_resnet 19]
    example_counting_runs
  by simp

section \<open>The containers hold the layers in the order of their creation\<close>

lemma append_new_records:
  assumes "append_new recording l st = Inr st'" and "records_layers base st"
  shows "records_layers base st'"
  using assms by (auto simp: append_new_Inr_iff recording_def records_layers_def)

lemma update_sizes_records:
  assumes "update_sizes p st = Inr st'" and "records_layers base st"
  shows "records_layers base st'"
  using assms by (auto simp: update_sizes_Inr_iff records_layers_def)

lemma update_sizes_records_modules:
  assumes "update_sizes p st = Inr st'" and "records_modules base st"
  shows "records_modules base st'"
  using assms by (auto simp: update_sizes_Inr_iff records_modules_def)

lemma append_activation_records:
  assumes "append_activation recording t ps st = Inr st'" and "records_layers base st"
  shows "records_layers base st'"
proof -
  consider "t = ''relu''" | "t = ''lrelu''" "ps = []" | "t = ''lrelu''" "ps \<noteq> []"
    | "t \<noteq> ''relu''" "t \<noteq> ''lrelu''"
    by blast
  then show ?thesis
  proof cases
    case 1
    with assms(1) have "append_new recording ReLU st = Inr st'"
      by (simp add: append_activation_def)
    then show ?thesis using assms(2) by (rule append_new_records)
  next
    case 2
    with assms(1) have "append_new recording (LeakyReLU None) st = Inr st'"
      by (simp add: append_activation_def)
    then show ?thesis using assms(2) by (rule append_new_records)
  next
    case 3
    with assms(1) obtain s where s: "dict_get ps ''negative_slope'' = Inr s"
      by (cases "dict_get ps ''negative_slope''") (simp_all add: append_activation_def)
    with 3 assms(1) have "append_new recording (LeakyReLU (Some s)) st = Inr st'"
      by (simp add: append_activation_def)
    then show ?thesis using assms(2) by (rule append_new_records)
  next
    case 4
    with assms show ?thesis by (simp add: append_activation_def)
  qed
qed

lemma fe_activation_records:
  assumes "fe_activation recording self st = Inr st'" and "records_layers base st"
  shows "records_layers base st'"
proof -
  consider "activation_type self = ''relu''" | "activation_type self = ''lrelu''"
    | "activation_type self \<noteq> ''relu''" "activation_type self \<noteq> ''lrelu''"
    by blast
  then show ?thesis
  proof cases
    case 1
    with assms(1) have "append_new recording ReLU st = Inr st'" by (simp add: fe_activation_def)
    then show ?thesis using assms(2) by (rule append_new_records)
  next
    case 2
    with assms(1) obtain s where s: "dict_get (activation_params self) ''negative_slope'' = Inr s"
      by (cases "dict_get (activation_params self) ''negative_slope''")
         (simp_all add: fe_activation_def)
    with 2 assms(1) have "append_new recording (LeakyReLU (Some s)) st = Inr st'"
      by (simp add: fe_activation_def)
    then show ?thesis using assms(2) by (rule append_new_records)
  next
    case 3
    with assms show ?thesis by (simp add: fe_activation_def)
  qed
qed

lemma fe_pooling_records:
  assumes "fe_pooling recording self pp idx st = Inr st'" and "records_layers base st"
  shows "records_layers base st'"
proof (cases "int idx mod pool_every self = 0")
  case False
  with assms show ?thesis by (simp add: fe_pooling_def split: if_splits)
next
  case True
  from assms(1) have nz: "pool_every self \<noteq> 0" by (simp add: fe_pooling_def split: if_splits)
  from assms(1) True nz obtain a b where
    a: "(if pooling_type self = ''max'' then
            append_new recording (MaxPool2d (kernel pp) (stride pp) (padding pp) (dilation pp)) st
          else if pooling_type self = ''avg'' then
            append_new recording (AvgPool2d (kernel pp) (stride pp) (padding pp)) st
          else Inr st) = Inr a"
    and b: "update_sizes pp a = Inr b" and c: "st' = b\<lparr>pools_num := pools_num b + 1\<rparr>"
    by (simp add: fe_pooling_def split: sum.splits)
  from a assms(2) have "records_layers base a"
    by (auto split: if_splits intro: append_new_records)
  with b have "records_layers base b" by (rule update_sizes_records)
  then show ?thesis unfolding c by (simp add: records_layers_def)
qed

lemma fe_body_records:
  assumes "fe_body recording self fl cp pp idx st = Inr st'" and "records_layers base st"
  shows "records_layers base st'"
proof -
  from assms(1) obtain i out where i: "py_index fl (int idx - 1) = Inr i"
    and out: "py_index fl (int idx) = Inr out"
    by (auto simp: fe_body_def split: sum.splits)
  from assms(1) i out obtain a b c where
    a: "append_new recording
          (Conv2d i out (kernel cp) (stride cp) (padding cp) (dilation cp) True) st = Inr a"
    and b: "update_sizes cp a = Inr b" and c: "fe_activation recording self b = Inr c"
    and d: "fe_pooling recording self pp idx c = Inr st'"
    by (simp add: fe_body_def split: sum.splits)
  from a assms(2) have "records_layers base a" by (rule append_new_records)
  with b have "records_layers base b" by (rule update_sizes_records)
  with c have "records_layers base c" by (rule fe_activation_records)
  with d show ?thesis by (rule fe_pooling_records)
qed

lemma fe_loop_records:
  assumes "fe_loop recording self fl cp pp idxs st = Inr st'" and "records_layers base st"
  shows "records_layers base st'"
  using assms
proof (induction idxs arbitrary: st)
  case Nil
  then show ?case by simp
next
  case (Cons idx idxs)
  from Cons.prems(1) obtain a where a: "fe_body recording self fl cp pp idx st = Inr a"
    and l: "fe_loop recording self fl cp pp idxs a = Inr st'" by (rule fe_loop_Cons_Inr)
  from a Cons.prems(2) have "records_layers base a" by (rule fe_body_records)
  with l show ?case by (rule Cons.IH)
qed

lemma fe_finish_records:
  assumes "fe_finish self st = Inr (fe, g')"
  shows "modules (fe_seq fe) = layers st" and "g' = ambient st"
  using assms by (auto simp: fe_finish_def split: sum.splits)

lemma ConvClassifier_make_feature_extractor_records:
  assumes "ConvClassifier_make_feature_extractor recording self g = Inr (fe, g')"
  shows "g' = g @ modules (fe_seq fe)"
proof -
  from assms obtain C H W cp pp st where
    l: "fe_loop recording self (C # channels self) cp pp [Suc 0 ..< Suc (length (channels self))]
          \<lparr>layers = [], ambient = g, in_h = H, in_w = W, pools_num = 0\<rparr> = Inr st"
    and f: "fe_finish self st = Inr (fe, g')"
    by (rule make_feature_extractor_loop)
  have "records_layers g \<lparr>layers = [], ambient = g, in_h = H, in_w = W, pools_num = 0\<rparr>"
    by (simp add: records_layers_def)
  with l have "records_layers g st" by (rule fe_loop_records)
  with fe_finish_records[OF f] show ?thesis by (simp add: records_layers_def)
qed

lemma cls_loop_records:
  assumes "cls_loop recording self hs d st = Inr (d', st')" and "records_layers base st"
  shows "records_layers base st'"
  using assms
proof (induction hs arbitrary: d st)
  case Nil
  then show ?case by simp
next
  case (Cons h hs)
  from Cons.prems(1) obtain a b where a: "append_new recording (Linear d h) st = Inr a"
    and b: "append_activation recording (activation_type self) (activation_params self) a = Inr b"
    and l: "cls_loop recording self hs h b = Inr (d', st')" by (rule cls_loop_Cons_Inr)
  from a Cons.prems(2) have "records_layers base a" by (rule append_new_records)
  with b have "records_layers base b" by (rule append_activation_records)
  with l show ?case by (rule Cons.IH)
qed

lemma make_classifier_records:
  assumes "make_classifier recording self n g = Inr (cl, g')"
  shows "g' = g @ modules cl"
proof -
  from assms obtain d a b where
    l: "cls_loop recording self (hidden_dims self) n \<lparr>layers = [], ambient = g\<rparr> = Inr (d, a)"
    and f: "append_new recording (Linear d (out_classes self)) a = Inr b"
    and c: "cl = Sequential (layers b)" and g': "g' = ambient b"
    by (auto simp: make_classifier_def split: sum.splits prod.splits)
  have "records_layers g \<lparr>layers = [], ambient = g\<rparr>" by (simp add: records_layers_def)
  with l have "records_layers g a" by (rule cls_loop_records)
  with f have "records_layers g b" by (rule append_new_records)
  then show ?thesis unfolding c g' by (simp add: records_layers_def)
qed

lemma init_with_records:
  assumes "ConvClassifier_init_with mk recording a g = Inr (m, g')"
    and "\<And>fe g1. mk recording a g = Inr (fe, g1) \<Longrightarrow> g1 = g @ flat (modules (fe_seq fe))"
  shows "g' = g @ flat (modules (feature_extractor m)) @ modules (classifier m)"
proof -
  from assms(1) obtain fe g1 cl where mk: "mk recording a g = Inr (fe, g1)"
    and c: "make_classifier recording a (fe_features_num fe) g1 = Inr (cl, g')"
    and m: "m = \<lparr>args = a, self_pools_num = fe_pools_num fe,
              features_num = fe_features_num fe,
              feature_extractor = fe_seq fe, classifier = cl\<rparr>"
    by (auto elim: init_with_Inr)
  from assms(2)[OF mk] make_classifier_records[OF c] show ?thesis by (simp add: m)
qed

lemma rb_loop_records:
  assumes "rb_loop recording b xs st = Inr st'" and "records_layers base st"
  shows "records_layers base st'"
  using assms
proof (induction xs arbitrary: st)
  case Nil
  then show ?case by simp
next
  case (Cons x xs)
  obtain i ch where x: "x = (i, ch)" by (cases x)
  from Cons.prems(1) obtain k pad where k: "py_index (rb_kernel_sizes b) (int i) = Inr k"
    and pad: "int_truediv k 2 = Inr pad"
    by (auto simp: x split: sum.splits)
  from Cons.prems(1) k pad obtain a where
    a: "append_new recording (Conv2d (tmp_in_channels st) ch k 1 pad 1 True) st = Inr a"
    by (auto simp: x split: sum.splits)
  from a Cons.prems(2) have "records_layers base a" by (rule append_new_records)
  then have ra: "records_layers base (a\<lparr>tmp_in_channels := ch\<rparr>)"
    by (simp add: records_layers_def)
  show ?case
  proof (cases "int i = int (length (rb_channels b)) - 1")
    case True
    with Cons.prems(1) k pad a have "st' = a\<lparr>tmp_in_channels := ch\<rparr>"
      by (simp add: x Let_def)
    with ra show ?thesis by simp
  next
    case False
    with Cons.prems(1) k pad a obtain c d e where
      c: "append_new recording (Dropout2d (rb_dropout b)) (a\<lparr>tmp_in_channels := ch\<rparr>) = Inr c"
      and d: "(if rb_batchnorm b then append_new recording (BatchNorm2d ch) c else Inr c) = Inr d"
      and e: "append_activation recording (rb_activation_type b) (rb_activation_params b) d = Inr e"
      and l: "rb_loop recording b xs e = Inr st'"
      by (auto simp: x Let_def split: sum.splits)
    from c ra have "records_layers base c" by (rule append_new_records)
    with d have "records_layers base d" by (auto split: if_splits intro: append_new_records)
    with e have "records_layers base e" by (rule append_activation_records)
    with l show ?thesis by (rule Cons.IH)
  qed
qed

lemma ResidualBlock_init_records:
  assumes "ResidualBlock_init recording b g = Inr (blk, g')"
  shows "g' = g @ modules (main_path blk) @ modules (shortcut_path blk)"
proof -
  from assms have c: "rb_channels b \<noteq> []" "rb_kernel_sizes b \<noteq> []"
    "length (rb_channels b) = length (rb_kernel_sizes b)"
    "list_all (\<lambda>x. x mod 2 = 1) (rb_kernel_sizes b)"
    "rb_activation_type b \<in> set ACTIVATIONS"
    by (auto simp: ResidualBlock_init_def split: if_splits)
  from assms c obtain st where
    l: "rb_loop recording b (enumerate 0 (rb_channels b))
          \<lparr>layers = [], ambient = g, tmp_in_channels = rb_in_channels b\<rparr> = Inr st"
    and r: "(if tmp_in_channels st \<noteq> rb_in_channels b then
                (case new_layer recording
                        (Conv2d (rb_in_channels b) (tmp_in_channels st) 1 1 0 1 False)
                        (ambient st) of
                   Inl e \<Rightarrow> Inl e
                 | Inr g' \<Rightarrow>
                     Inr (\<lparr>main_path = Sequential (layers st),
                           shortcut_path =
                             Sequential
                               [Conv2d (rb_in_channels b) (tmp_in_channels st) 1 1 0 1 False]\<rparr>,
                          g'))
              else
                Inr (\<lparr>main_path = Sequential (layers st), shortcut_path = Sequential []\<rparr>,
                     ambient st)) = Inr (blk, g')"
    by (simp add: ResidualBlock_init_def split: sum.splits)
  have "records_layers g \<lparr>layers = [], ambient = g, tmp_in_channels = rb_in_channels b\<rparr>"
    by (simp add: records_layers_def)
  with l have "records_layers g st" by (rule rb_loop_records)
  then have a: "ambient st = g @ layers st" by (simp add: records_layers_def)
  from r a show ?thesis
    by (auto simp: new_layer_def recording_def split: if_splits)
qed

lemma append_block_records:
  assumes "append_block recording c cs ks bn dr st = Inr st'" and "records_modules base st"
  shows "records_modules base st'"
proof -
  from assms(1) obtain blk g' where
    b: "ResidualBlock_init recording
          \<lparr>rb_in_channels = c, rb_channels = cs, rb_kernel_sizes = ks,
           rb_batchnorm = bn, rb_dropout = dr,
           rb_activation_type = ''relu'', rb_activation_params = []\<rparr> (ambient st) = Inr (blk, g')"
    and 1: "st' = st\<lparr>layers := layers st @ [Block blk], ambient := g'\<rparr>"
    by (auto simp: append_block_def split: sum.splits)
  from ResidualBlock_init_records[OF b] assms(2) show ?thesis
    unfolding 1 by (simp add: records_modules_def)
qed

lemma append_module_records:
  assumes "append_module recording l st = Inr st'" and "records_modules base st"
  shows "records_modules base st'"
  using assms
  by (auto simp: append_module_def new_layer_def recording_def records_modules_def)

lemma pooling_module_records:
  assumes "(if t = ''max'' then append_module recording (MaxPool2d k s p d) st
            else if t = ''avg'' then append_module recording (AvgPool2d k s p) st
            else Inr st) = Inr st'"
    and "records_modules base st"
  shows "records_modules base st'"
  using assms by (auto split: if_splits intro: append_module_records)

lemma resnet_body_records:
  assumes "resnet_body recording self pp index st = Inr st'" and "records_modules base st"
  shows "records_modules base st'"
proof -
  from assms(1) obtain a b c ch where
    a: "append_block recording (curr_channels st)
          (py_slice (channels self) (pool_every self * int index)
             (pool_every self * (int index + 1)))
          (replicate (nat (pool_every self)) 3) (batchnorm self) (dropout self) st = Inr a"
    and b: "(if pooling_type self = ''max'' then
              append_module recording
                (MaxPool2d (kernel pp) (stride pp) (padding pp) (dilation pp)) a
            else if pooling_type self = ''avg'' then
              append_module recording (AvgPool2d (kernel pp) (stride pp) (padding pp)) a
            else Inr a) = Inr b"
    and c: "update_sizes pp b = Inr c"
    and r: "st' = c\<lparr>pools_num := pools_num c + 1, curr_channels := ch\<rparr>"
    by (auto simp: resnet_body_def Let_def split: sum.splits)
  from a assms(2) have "records_modules base a" by (rule append_block_records)
  with b have "records_modules base b" by (rule pooling_module_records)
  with c have "records_modules base c" by (rule update_sizes_records_modules)
  then show ?thesis unfolding r by (simp add: records_modules_def)
qed

lemma resnet_loop_records:
  assumes "resnet_loop recording self pp idxs st = Inr st'" and "records_modules base st"
  shows "records_modules base st'"
  using assms
proof (induction idxs arbitrary: st)
  case Nil
  then show ?case by simp
next
  case (Cons idx idxs)
  from Cons.prems(1) obtain a where a: "resnet_body recording self pp idx st = Inr a"
    and l: "resnet_loop recording self pp idxs a = Inr st'" by (auto split: sum.splits)
  from a Cons.prems(2) have "records_modules base a" by (rule resnet_body_records)
  with l show ?case by (rule Cons.IH)
qed

lemma ResNet_make_feature_extractor_records:
  assumes "ResNetClassifier_make_feature_extractor recording self g = Inr (fe, g')"
  shows "g' = g @ concat (map module_layers (modules (fe_seq fe)))"
proof -
  from assms obtain C H W pp a b where
    l: "resnet_loop recording self pp
           [0 ..< nat (quotient_int (int (length (channels self))) (pool_every self))]
           \<lparr>layers = [], ambient = g, in_h = H, in_w = W, pools_num = 0,
            curr_channels = C\<rparr> = Inr a"
    and r: "(if int (length (channels self)) mod pool_every self \<noteq> 0 then
            append_block recording (curr_channels a)
              (py_slice_from (channels self)
                 (int (length (channels self)) - int (length (channels self)) mod pool_every self))
              (replicate (nat (int (length (channels self)) mod pool_every self)) 3)
              (batchnorm self) (dropout self) a
          else Inr a) = Inr b"
    and f: "fe_finish self b = Inr (fe, g')"
    by (rule ResNet_make_feature_extractor_stages)
  have "records_modules g \<lparr>layers = [], ambient = g, in_h = H, in_w = W, pools_num = 0,
            curr_channels = C\<rparr>"
    by (simp add: records_modules_def)
  with l have "records_modules g a" by (rule resnet_loop_records)
  with r have "records_modules g b" by (auto split: if_splits intro: append_block_records)
  with fe_finish_records[OF f] show ?thesis by (simp add: records_modules_def)
qed

lemma yc_body_records:
  assumes "yc_body recording self last_index index st = Inr st'" and "records_modules base st"
  shows "records_modules base st'"
proof -
  let ?A = "append_block recording (curr_channels st)
          (py_slice (channels self) (pool_every self * int index)
             (pool_every self * (int index + 1)))
          (replicate (nat (pool_every self)) 3) True 0 st"
  from assms(1) obtain a where a: "?A = Inr a"
    by (cases ?A) (simp_all add: yc_body_def Let_def)
  let ?D = "(if int index = last_index - 1 then
              (case append_module recording
                      (MaxPool2d (kernel yc_pool) (stride yc_pool) (padding yc_pool)
                         (dilation yc_pool)) a of
                 Inl e \<Rightarrow> Inl e
               | Inr st2 \<Rightarrow>
              (case append_module recording (Dropout2d (1 / 10)) st2 of
                 Inl e \<Rightarrow> Inl e
               | Inr st3 \<Rightarrow> update_sizes yc_pool (st3\<lparr>pools_num := pools_num st3 + 1\<rparr>)))
            else Inr a)"
  from assms(1) a obtain d where d: "?D = Inr d"
    by (cases ?D) (simp_all add: yc_body_def Let_def)
  from assms(1) a d obtain ch where r: "st' = d\<lparr>curr_channels := ch\<rparr>"
    by (cases "py_index (channels self) (pool_every self * (int index + 1) - 1)")
       (auto simp: yc_body_def Let_def)
  from a assms(2) have ra: "records_modules base a" by (rule append_block_records)
  have "records_modules base d"
  proof (cases "int index = last_index - 1")
    case False
    with d ra show ?thesis by simp
  next
    case True
    with d have d': "(case append_module recording
                      (MaxPool2d (kernel yc_pool) (stride yc_pool) (padding yc_pool)
                         (dilation yc_pool)) a of
                 Inl e \<Rightarrow> Inl e
               | Inr st2 \<Rightarrow>
              (case append_module recording (Dropout2d (1 / 10)) st2 of
                 Inl e \<Rightarrow> Inl e
               | Inr st3 \<Rightarrow> update_sizes yc_pool (st3\<lparr>pools_num := pools_num st3 + 1\<rparr>)))
          = Inr d" by simp
    then obtain b where
      b: "append_module recording
            (MaxPool2d (kernel yc_pool) (stride yc_pool) (padding yc_pool) (dilation yc_pool)) a
          = Inr b"
      by (cases "append_module recording
            (MaxPool2d (kernel yc_pool) (stride yc_pool) (padding yc_pool) (dilation yc_pool)) a")
         simp_all
    from d' b obtain c where c: "append_module recording (Dropout2d (1 / 10)) b = Inr c"
      by (cases "append_module recording (Dropout2d (1 / 10)) b") simp_all
    from d' b c have u: "update_sizes yc_pool (c\<lparr>pools_num := pools_num c + 1\<rparr>) = Inr d"
      by simp
    from b ra have "records_modules base b" by (rule append_module_records)
    with c have "records_modules base c" by (rule append_module_records)
    then have "records_modules base (c\<lparr>pools_num := pools_num c + 1\<rparr>)"
      by (simp add: records_modules_def)
    with u show ?thesis by (rule update_sizes_records_modules)
  qed
  then show ?thesis unfolding r by (simp add: records_modules_def)
qed

lemma yc_loop_records:
  assumes "yc_loop recording self last_index idxs st = Inr st'" and "records_modules base st"
  shows "records_modules base st'"
  using assms
proof (induction idxs arbitrary: st)
  case Nil
  then show ?case by simp
next
  case (Cons idx idxs)
  from Cons.prems(1) obtain a where a: "yc_body recording self last_index idx st = Inr a"
    and l: "yc_loop recording self last_index idxs a = Inr st'" by (auto split: sum.splits)
  from a Cons.prems(2) have "records_modules base a" by (rule yc_body_records)
  with l show ?case by (rule Cons.IH)
qed

lemma YourCodeNet_make_feature_extractor_records:
  assumes "YourCodeNet_make_feature_extractor recording self g = Inr (fe, g')"
  shows "g' = g @ concat (map module_layers (modules (fe_seq fe)))"
proof -
  from assms obtain C H W where s: "in_size self = [C, H, W]"
    by (auto simp: YourCodeNet_make_feature_extractor_def split: list.splits)
  from assms s have nz: "pool_every self \<noteq> 0"
    by (auto simp: YourCodeNet_make_feature_extractor_def Let_def split: if_splits)
  from assms s nz obtain q where
    "int_truediv (int (length (channels self))) (pool_every self) = Inr q"
    by (cases "int_truediv (int (length (channels self))) (pool_every self)")
       (simp_all add: YourCodeNet_make_feature_extractor_def Let_def)
  then have td: "int_truediv (int (length (channels self))) (pool_every self)
      = Inr (quotient_int (int (length (channels self))) (pool_every self))"
    by (simp add: int_truediv_Inr_iff)
  let ?n = "quotient_int (int (length (channels self))) (pool_every self)"
  let ?st0 = "\<lparr>layers = [], ambient = g, in_h = H, in_w = W, pools_num = 0,
            curr_channels = C\<rparr>"
  from assms s nz td obtain a where l: "yc_loop recording self ?n [0 ..< nat ?n] ?st0 = Inr a"
    by (cases "yc_loop recording self ?n [0 ..< nat ?n] ?st0")
       (simp_all add: YourCodeNet_make_feature_extractor_def Let_def)
  from assms s nz td l obtain b where
    r: "(if int (length (channels self)) mod pool_every self \<noteq> 0 then
            append_block recording (curr_channels a)
              (py_slice_from (channels self)
                 (int (length (channels self)) - int (length (channels self)) mod pool_every self))
              (replicate (nat (int (length (channels self)) mod pool_every self)) 3) True 0 a
          else Inr a) = Inr b"
    and f: "fe_finish self b = Inr (fe, g')"
    by (simp add: YourCodeNet_make_feature_extractor_def Let_def split: sum.splits)
  have "records_modules g ?st0" by (simp add: records_modules_def)
  with l have "records_modules g a" by (rule yc_loop_records)
  with r have "records_modules g b" by (auto split: if_splits intro: append_block_records)
  with fe_finish_records[OF f] show ?thesis by (simp add: records_modules_def)
qed

lemma YourCodeNet_init_records:
  assumes "YourCodeNet_init recording a g = Inr (y, g')"
  shows "\<exists>first. g' = g @ first @ concat (map module_layers (modules (feature_extractor y)))
                    @ modules (classifier y) @ [yc_dropout y]"
proof -
  let ?I = "ConvClassifier_init_with YourCodeNet_make_feature_extractor recording a g"
  from assms obtain r where "?I = Inr r" by (cases ?I) (simp_all add: YourCodeNet_init_def)
  then obtain self g1 where i: "?I = Inr (self, g1)" by (cases r) simp
  let ?F = "YourCodeNet_make_feature_extractor recording a g1"
  from assms i obtain r2 where "?F = Inr r2" by (cases ?F) (simp_all add: YourCodeNet_init_def)
  then obtain fe g2 where f: "?F = Inr (fe, g2)" by (cases r2) simp
  let ?C = "make_classifier recording a (fe_features_num fe) g2"
  from assms i f obtain r3 where "?C = Inr r3" by (cases ?C) (simp_all add: YourCodeNet_init_def)
  then obtain cl g3 where c: "?C = Inr (cl, g3)" by (cases r3) simp
  have d: "new_layer recording (Dropout (1 / 10)) g3 = Inr (g3 @ [Dropout (1 / 10)])"
    by (simp add: new_layer_def recording_def)
  from assms i f c d have y: "y = \<lparr>args = a, self_pools_num = fe_pools_num fe,
                features_num = fe_features_num fe,
                feature_extractor = fe_seq fe, classifier = cl,
                yc_dropout = Dropout (1 / 10)\<rparr>"
    and g': "g' = g3 @ [Dropout (1 / 10)]"
    by (simp_all add: YourCodeNet_init_def)
  from init_with_records[OF i, of "\<lambda>ms. concat (map module_layers ms)"]
    YourCodeNet_make_feature_extractor_records
  have 1: "g1 = g @ concat (map module_layers (modules (feature_extractor self)))
      @ modules (classifier self)" by blast
  from YourCodeNet_make_feature_extractor_records[OF f]
  have 2: "g2 = g1 @ concat (map module_layers (modules (fe_seq fe)))" .
  from make_classifier_records[OF c] have 3: "g3 = g2 @ modules cl" .
  show ?thesis
    by (rule exI[of _ "concat (map module_layers (modules (feature_extractor self)))
      @ modules (classifier self)"]) (simp add: g' 3 2 1 y)
qed

subsection \<open>Sequential containers in creation order\<close>

text \<open>
  Claim C7. Each class wraps the list it has assembled in a sequential container, and the
  elements stand there in the order in which they were created and appended. With a
  framework that records every constructor call, the calls made by a construction are,
  in order: for a ConvClassifier the layers of \<open>feature_extractor\<close> then those of
  \<open>classifier\<close>; for a ResidualBlock those of \<open>main_path\<close> then those of
  \<open>shortcut_path\<close>; for a ResNetClassifier those of the elements of its feature
  extractor, each residual block contributing its two paths, then the classifier; and
  for a YourCodeNet, after the layers of the first construction that its constructor
  discards, the same for its final feature extractor and classifier, then its dropout.
\<close>

theorem containers_in_creation_order:
  "(ConvClassifier_init recording a g = Inr (m, g1) \<longrightarrow>
      g1 = g @ modules (feature_extractor m) @ modules (classifier m)) \<and>
   (ResidualBlock_init recording b g = Inr (blk, g2) \<longrightarrow>
      g2 = g @ modules (main_path blk) @ modules (shortcut_path blk)) \<and>
   (ResNetClassifier_init recording r g = Inr (n, g3) \<longrightarrow>
      g3 = g @ concat (map module_layers (modules (feature_extractor n)))
           @ modules (classifier n)) \<and>
   (YourCodeNet_init recording a g = Inr (y, g4) \<longrightarrow>
      (\<exists>first. g4 = g @ first @ concat (map module_layers (modules (feature_extractor y)))
                    @ modules (classifier y) @ [yc_dropout y]))"
proof (intro conjI impI)
  assume "ConvClassifier_init recording a g = Inr (m, g1)"
  then have "ConvClassifier_init_with ConvClassifier_make_feature_extractor recording a g
      = Inr (m, g1)" by (simp add: ConvClassifier_init_def)
  from init_with_records[OF this, of "\<lambda>ms. ms"] ConvClassifier_make_feature_extractor_records
  show "g1 = g @ modules (feature_extractor m) @ modules (classifier m)" by blast
next
  assume "ResidualBlock_init recording b g = Inr (blk, g2)"
  then show "g2 = g @ modules (main_path blk) @ modules (shortcut_path blk)"
    by (rule ResidualBlock_init_records)
next
  assume "ResNetClassifier_init recording r g = Inr (n, g3)"
  then have "ConvClassifier_init_with ResNetClassifier_make_feature_extractor recording r g
      = Inr (n, g3)" by (simp add: ResNetClassifier_init_def)
  from init_with_records[OF this, of "\<lambda>ms. concat (map module_layers ms)"]
    ResNet_make_feature_extractor_records
  show "g3 = g @ concat (map module_layers (modules (feature_extractor n)))
           @ modules (classifier n)" by blast
next
  assume "YourCodeNet_init recording a g = Inr (y, g4)"
  then show "\<exists>first. g4 = g @ first @ concat (map module_layers (modules (feature_extractor y)))
                    @ modules (classifier y) @ [yc_dropout y]"
    by (rule YourCodeNet_init_records)
qed

lemma example_recording_runs:
  "ConvClassifier_init recording example_args []
     = Inr (example_classifier,
            modules (feature_extractor example_classifier) @ modules (classifier example_classifier))"
  "ResidualBlock_init recording example_block_args []
     = Inr (example_block, modules (main_path example_block) @ modules (shortcut_path example_block))"
  "ResNetClassifier_init recording example_resnet_args []
     = Inr (example_resnet,
            concat (map module_layers (modules (feature_extractor example_resnet)))
            @ modules (classifier example_resnet))"
  "YourCodeNet_init recording example_args []
     = Inr (example_your_code_net,
            (concat (map module_layers (modules (feature_extractor example_your_code_net)))
             @ modules (classifier example_your_code_net))
            @ concat (map module_layers (modules (feature_extractor example_your_code_net)))
            @ modules (classifier example_your_code_net) @ [yc_dropout example_your_code_net])"
  by code_simp+

theorem containers_in_creation_order_witness:
  "ConvClassifier_init recording example_args []
     = Inr (example_classifier,
            [Conv2d 3 8 3 1 0 1 True, ReLU, Conv2d 8 16 3 1 0 1 True, ReLU, MaxPool2d 2 2 0 1,
             Conv2d 16 32 3 1 0 1 True, ReLU, Linear 4608 100, ReLU, Linear 100 10]) \<and>
   ResidualBlock_init recording example_block_args []
     = Inr (example_block,
            [Conv2d 3 8 3 1 1 1 True, Dropout2d 0, BatchNorm2d 8, ReLU, Conv2d 8 16 5 1 2 1 True,
             Conv2d 3 16 1 1 0 1 False]) \<and>
   ResNetClassifier_init recording example_resnet_args []
     = Inr (example_resnet,
            concat (map module_layers (modules (feature_extractor example_resnet)))
            @ modules (classifier example_resnet)) \<and>
   YourCodeNet_init recording example_args []
     = Inr (example_your_code_net,
            (concat (map module_layers (modules (feature_extractor example_your_code_net)))
             @ modules (classifier example_your_code_net))
            @ concat (map module_layers (modules (feature_extractor example_your_code_net)))
            @ modules (classifier example_your_code_net) @ [yc_dropout example_your_code_net])"
  using containers_in_creation_order [where a = example_args and g = "[]"
      and m = example_classifier and b = example_block_args and blk = example_block
      and r = example_resnet_args and n = example_resnet and y = example_your_code_net]
    example_recording_runs
  by (simp add: example_classifier_def example_block_def)

end
